theory Spec2Isabelle
  imports Main "HOL-Library.AList" "HOL-Library.Sublist" "HOL-Library.Multiset"
begin

section \<open>The in-memory store of server/storage.ts\<close>

subsection \<open>JavaScript's Map, as an insertion-ordered association list\<close>

text \<open>
  A JavaScript \<^verbatim>\<open>Map\<close> iterates in insertion order; \<^verbatim>\<open>set\<close> on a key that is present
  replaces the value where it stands, \<^verbatim>\<open>set\<close> on a new key appends, \<^verbatim>\<open>delete\<close> removes the
  entry and says whether there was one. The model is the list of entries in insertion
  order. A real Map never holds a key twice; on the list this is the representation
  invariant \<open>distinct (map fst m)\<close>, which every operation below preserves.
\<close>

definition Map_get :: "('k \<times> 'v) list \<Rightarrow> 'k \<Rightarrow> 'v option" where
  "Map_get m k = map_of m k"

definition Map_has :: "('k \<times> 'v) list \<Rightarrow> 'k \<Rightarrow> bool" where
  "Map_has m k = (map_of m k \<noteq> None)"

definition Map_set :: "('k \<times> 'v) list \<Rightarrow> 'k \<Rightarrow> 'v \<Rightarrow> ('k \<times> 'v) list" where
  "Map_set m k v = AList.update k v m"

definition Map_delete :: "('k \<times> 'v) list \<Rightarrow> 'k \<Rightarrow> bool \<times> ('k \<times> 'v) list" where
  "Map_delete m k = (map_of m k \<noteq> None, AList.delete k m)"

definition Map_values :: "('k \<times> 'v) list \<Rightarrow> 'v list" where
  "Map_values m = map snd m"

definition Map_entries :: "('k \<times> 'v) list \<Rightarrow> ('k \<times> 'v) list" where
  "Map_entries m = m"

subsection \<open>Numbers that may be NaN\<close>

text \<open>
  The routes read the post id of the like and bookmark routes and the user id of the
  follow routes from the URL with \<^verbatim>\<open>parseInt\<close> and pass the result on unchecked, so these
  arguments, and the fields that store them, are an integer or \<^verbatim>\<open>NaN\<close>. The store
  compares them with \<^verbatim>\<open>===\<close>, which holds between equal integers and never holds for
  \<^verbatim>\<open>NaN\<close>, not even between \<^verbatim>\<open>NaN\<close> and itself. The other ids are integers: those
  issued by a counter of the store, taken from the session or validated before the
  store is called are integers in the code; an id that is only looked up in a Map or
  only compared with stored integer ids matches nothing when it is \<^verbatim>\<open>NaN\<close>, as an
  integer that occurs nowhere does.
\<close>

datatype number = Num int | NaN

definition strictEq :: "number \<Rightarrow> number \<Rightarrow> bool" where
  "strictEq a b =
     (case a of NaN \<Rightarrow> False | Num x \<Rightarrow> (case b of NaN \<Rightarrow> False | Num y \<Rightarrow> x = y))"

subsection \<open>Entities\<close>

text \<open>
  Modelled from the spec: the entity types \<^verbatim>\<open>User\<close>, \<^verbatim>\<open>Post\<close>, \<^verbatim>\<open>Like\<close>, \<^verbatim>\<open>Comment\<close>,
  \<^verbatim>\<open>Bookmark\<close>, \<^verbatim>\<open>Follow\<close>, \<^verbatim>\<open>Message\<close> and their insert shapes are declared in
  \<^verbatim>\<open>@shared/schema\<close>, which is not among the sources. The fields are those the data model
  of the specification lists and that storage.ts reads and writes. Identifiers and
  counters are JavaScript numbers holding integers (\<open>int\<close>), but for the post id of a
  like or a bookmark and the followed id of a follow, which may be \<^verbatim>\<open>NaN\<close> (\<open>number\<close>); a
  \<^verbatim>\<open>Date\<close> is its \<^verbatim>\<open>getTime()\<close> value in milliseconds (\<open>int\<close>); a field that may be
  \<^verbatim>\<open>null\<close> or left out is an \<open>option\<close>. A string is the list of its UTF-16 code units,
  for text whose code units are below 256 (the Latin-1 range), which is what \<open>char\<close>
  holds. Field names carry the entity as a prefix, since several entities share the
  names \<^verbatim>\<open>id\<close>, \<^verbatim>\<open>userId\<close>, \<^verbatim>\<open>postId\<close> and \<^verbatim>\<open>createdAt\<close>.
\<close>

record user =
  user_id :: int
  user_email :: string
  user_username :: string
  user_password :: string
  user_displayName :: string
  user_bio :: "string option"
  user_avatar :: "string option"
  user_createdAt :: int

record insertUser =
  iu_email :: string
  iu_username :: string
  iu_password :: string
  iu_displayName :: string
  iu_bio :: "string option"
  iu_avatar :: "string option"

record post =
  post_id :: int
  post_title :: string
  post_content :: string
  post_excerpt :: string
  post_authorId :: int
  post_image :: "string option"
  post_tags :: "string list option"
  post_published :: bool
  post_createdAt :: int
  post_updatedAt :: int

record insertPost =
  ip_title :: string
  ip_content :: string
  ip_excerpt :: string
  ip_authorId :: int
  ip_image :: "string option"
  ip_tags :: "string list option"
  ip_published :: "bool option"

text \<open>
  \<^verbatim>\<open>Partial<InsertPost>\<close>: every field may be left out (\<open>None\<close>); a field that is supplied
  carries its value, which for the nullable \<^verbatim>\<open>image\<close> and \<^verbatim>\<open>tags\<close> may itself be \<^verbatim>\<open>null\<close>.
\<close>

record partialInsertPost =
  pp_title :: "string option"
  pp_content :: "string option"
  pp_excerpt :: "string option"
  pp_authorId :: "int option"
  pp_image :: "string option option"
  pp_tags :: "string list option option"
  pp_published :: "bool option"

record like =
  like_id :: int
  like_userId :: int
  like_postId :: number
  like_createdAt :: int

record comment =
  comment_id :: int
  comment_postId :: int
  comment_userId :: int
  comment_content :: string
  comment_createdAt :: int

record insertComment =
  ic_postId :: int
  ic_userId :: int
  ic_content :: string

record bookmark =
  bookmark_id :: int
  bookmark_userId :: int
  bookmark_postId :: number
  bookmark_createdAt :: int

record follow =
  follow_id :: int
  follow_followerId :: int
  follow_followingId :: number
  follow_createdAt :: int

record message =
  message_id :: int
  message_senderId :: int
  message_receiverId :: int
  message_content :: string
  message_isRead :: bool
  message_createdAt :: int

record insertMessage =
  im_senderId :: int
  im_receiverId :: int
  im_content :: string
  im_isRead :: "bool option"

text \<open>The author summary that enriched posts and conversations carry.\<close>

record authorInfo =
  author_id :: int
  author_displayName :: string
  author_username :: string
  author_avatar :: "string option"

text \<open>
  \<^verbatim>\<open>PostWithAuthor\<close> is \<^verbatim>\<open>{...post, author, likeCount, commentCount, isLiked, isBookmarked}\<close>;
  the spread post is the field \<open>pwa_post\<close>.
\<close>

record postWithAuthor =
  pwa_post :: post
  pwa_author :: authorInfo
  pwa_likeCount :: nat
  pwa_commentCount :: nat
  pwa_isLiked :: bool
  pwa_isBookmarked :: bool

record conversation =
  conv_participant :: authorInfo
  conv_lastMessage :: message
  conv_unreadCount :: nat

subsection \<open>The store\<close>

record currentId =
  cur_users :: int
  cur_posts :: int
  cur_likes :: int
  cur_comments :: int
  cur_bookmarks :: int
  cur_follows :: int
  cur_messages :: int

record store =
  users :: "(int \<times> user) list"
  posts :: "(int \<times> post) list"
  likes :: "(int \<times> like) list"
  comments :: "(int \<times> comment) list"
  bookmarks :: "(int \<times> bookmark) list"
  follows :: "(int \<times> follow) list"
  messages :: "(int \<times> message) list"
  currentId :: currentId

text \<open>The constructor: seven empty maps, every counter at 1.\<close>

definition MemStorage :: store where
  "MemStorage =
     \<lparr>users = [], posts = [], likes = [], comments = [], bookmarks = [], follows = [],
      messages = [],
      currentId = \<lparr>cur_users = 1, cur_posts = 1, cur_likes = 1, cur_comments = 1,
                   cur_bookmarks = 1, cur_follows = 1, cur_messages = 1\<rparr>\<rparr>"

text \<open>\<^verbatim>\<open>x || null\<close> on an optional string: absent, null and the empty string all give null.\<close>

definition orNull :: "string option \<Rightarrow> string option" where
  "orNull x = (case x of None \<Rightarrow> None | Some v \<Rightarrow> if v = [] then None else Some v)"

text \<open>
  Sorting with the comparator \<^verbatim>\<open>(a, b) => b.createdAt.getTime() - a.createdAt.getTime()\<close>:
  \<^verbatim>\<open>Array.prototype.sort\<close> is stable, and so is \<open>sort_key\<close>; descending order is
  ascending order of the negated time.
\<close>

definition sortNewestFirst :: "('a \<Rightarrow> int) \<Rightarrow> 'a list \<Rightarrow> 'a list" where
  "sortNewestFirst createdAt xs = sort_key (\<lambda>x. - createdAt x) xs"

subsection \<open>Users\<close>

definition getUser :: "store \<Rightarrow> int \<Rightarrow> user option" where
  "getUser s i = Map_get (users s) i"

definition getUserByEmail :: "store \<Rightarrow> string \<Rightarrow> user option" where
  "getUserByEmail s email = find (\<lambda>u. user_email u = email) (Map_values (users s))"

definition getUserByUsername :: "store \<Rightarrow> string \<Rightarrow> user option" where
  "getUserByUsername s username =
     find (\<lambda>u. user_username u = username) (Map_values (users s))"

text \<open>
  \<open>hashedPassword\<close> is what \<^verbatim>\<open>bcrypt.hash(userData.password, 10)\<close> returned and \<open>now\<close> is
  \<^verbatim>\<open>new Date()\<close>; both come from outside the store.
\<close>

definition createUser :: "store \<Rightarrow> insertUser \<Rightarrow> string \<Rightarrow> int \<Rightarrow> user \<times> store" where
  "createUser s userData hashedPassword now =
     (let i = cur_users (currentId s);
          u = \<lparr>user_id = i, user_email = iu_email userData,
               user_username = iu_username userData, user_password = hashedPassword,
               user_displayName = iu_displayName userData,
               user_bio = orNull (iu_bio userData), user_avatar = orNull (iu_avatar userData),
               user_createdAt = now\<rparr>
      in (u, s\<lparr>users := Map_set (users s) i u,
               currentId := (currentId s)\<lparr>cur_users := i + 1\<rparr>\<rparr>))"

subsection \<open>Strings and arrays\<close>

text \<open>
  \<^verbatim>\<open>String.prototype.toLowerCase\<close> on text of the Latin-1 range works unit by unit: the
  upper-case letters are the units 65 to 90 (\<^verbatim>\<open>A\<close> to \<^verbatim>\<open>Z\<close>) and 192 to 222 but 215 (the
  accented capitals; 215 is the multiplication sign), the lower-case letter of each is
  32 units further, which is the same unit with its bit of weight 32 set, and every
  other unit stays as it is.
\<close>

definition isUpperUnit :: "char \<Rightarrow> bool" where
  "isUpperUnit c =
     (let n = (of_char c :: nat)
      in (65 \<le> n \<and> n \<le> 90) \<or> (192 \<le> n \<and> n \<le> 222 \<and> n \<noteq> 215))"

definition lowerChar :: "char \<Rightarrow> char" where
  "lowerChar c =
     (if isUpperUnit c
      then (case c of Char b0 b1 b2 b3 b4 b5 b6 b7 \<Rightarrow> Char b0 b1 b2 b3 b4 True b6 b7)
      else c)"

definition toLowerCase :: "string \<Rightarrow> string" where
  "toLowerCase str = map lowerChar str"

text \<open>\<^verbatim>\<open>String.prototype.includes\<close>: does \<open>q\<close> occur in \<open>str\<close> as a contiguous run?\<close>

fun includes_str :: "string \<Rightarrow> string \<Rightarrow> bool" where
  "includes_str [] q = (q = [])"
| "includes_str (c # cs) q = (prefix q (c # cs) \<or> includes_str cs q)"

text \<open>
  \<^verbatim>\<open>Array.prototype.slice(start, end)\<close>: a negative index counts from the end, both ends
  are clamped to the array, and an end at or before the start gives the empty array.
\<close>

definition slice :: "'a list \<Rightarrow> int \<Rightarrow> int \<Rightarrow> 'a list" where
  "slice xs start fin =
     (let len = int (length xs);
          k = (if start < 0 then max (len + start) 0 else min start len);
          final = (if fin < 0 then max (len + fin) 0 else min fin len)
      in take (nat (final - k)) (drop (nat k) xs))"

text \<open>A default parameter value: used when the argument is left out.\<close>

definition orDefault :: "'a \<Rightarrow> 'a option \<Rightarrow> 'a" where
  "orDefault d x = (case x of None \<Rightarrow> d | Some v \<Rightarrow> v)"

subsection \<open>Likes, comments, bookmarks\<close>

definition likePost :: "store \<Rightarrow> int \<Rightarrow> number \<Rightarrow> int \<Rightarrow> like \<times> store" where
  "likePost s userId postId now =
     (case find (\<lambda>l. like_userId l = userId \<and> strictEq (like_postId l) postId)
             (Map_values (likes s)) of
        Some existing \<Rightarrow> (existing, s)
      | None \<Rightarrow>
          (let i = cur_likes (currentId s);
               l = \<lparr>like_id = i, like_userId = userId, like_postId = postId,
                    like_createdAt = now\<rparr>
           in (l, s\<lparr>likes := Map_set (likes s) i l,
                    currentId := (currentId s)\<lparr>cur_likes := i + 1\<rparr>\<rparr>)))"

definition unlikePost :: "store \<Rightarrow> int \<Rightarrow> number \<Rightarrow> bool \<times> store" where
  "unlikePost s userId postId =
     (case find (\<lambda>(_, l). like_userId l = userId \<and> strictEq (like_postId l) postId)
             (Map_entries (likes s)) of
        None \<Rightarrow> (False, s)
      | Some (k, _) \<Rightarrow>
          (let (deleted, m) = Map_delete (likes s) k in (deleted, s\<lparr>likes := m\<rparr>)))"

definition isPostLiked :: "store \<Rightarrow> int \<Rightarrow> number \<Rightarrow> bool" where
  "isPostLiked s userId postId =
     list_ex (\<lambda>l. like_userId l = userId \<and> strictEq (like_postId l) postId)
       (Map_values (likes s))"

definition getPostLikeCount :: "store \<Rightarrow> number \<Rightarrow> nat" where
  "getPostLikeCount s postId =
     length (filter (\<lambda>l. strictEq (like_postId l) postId) (Map_values (likes s)))"

definition createComment :: "store \<Rightarrow> insertComment \<Rightarrow> int \<Rightarrow> comment \<times> store" where
  "createComment s commentData now =
     (let i = cur_comments (currentId s);
          c = \<lparr>comment_id = i, comment_postId = ic_postId commentData,
               comment_userId = ic_userId commentData,
               comment_content = ic_content commentData, comment_createdAt = now\<rparr>
      in (c, s\<lparr>comments := Map_set (comments s) i c,
               currentId := (currentId s)\<lparr>cur_comments := i + 1\<rparr>\<rparr>))"

definition getCommentCount :: "store \<Rightarrow> int \<Rightarrow> nat" where
  "getCommentCount s postId =
     length (filter (\<lambda>c. comment_postId c = postId) (Map_values (comments s)))"

definition bookmarkPost :: "store \<Rightarrow> int \<Rightarrow> number \<Rightarrow> int \<Rightarrow> bookmark \<times> store" where
  "bookmarkPost s userId postId now =
     (case find (\<lambda>b. bookmark_userId b = userId \<and> strictEq (bookmark_postId b) postId)
             (Map_values (bookmarks s)) of
        Some existing \<Rightarrow> (existing, s)
      | None \<Rightarrow>
          (let i = cur_bookmarks (currentId s);
               b = \<lparr>bookmark_id = i, bookmark_userId = userId, bookmark_postId = postId,
                    bookmark_createdAt = now\<rparr>
           in (b, s\<lparr>bookmarks := Map_set (bookmarks s) i b,
                    currentId := (currentId s)\<lparr>cur_bookmarks := i + 1\<rparr>\<rparr>)))"

definition isPostBookmarked :: "store \<Rightarrow> int \<Rightarrow> number \<Rightarrow> bool" where
  "isPostBookmarked s userId postId =
     list_ex (\<lambda>b. bookmark_userId b = userId \<and> strictEq (bookmark_postId b) postId)
       (Map_values (bookmarks s))"

subsection \<open>Posts\<close>

text \<open>
  The viewer \<^verbatim>\<open>userId?: number\<close> is an \<open>int option\<close>. The source tests it for truthiness
  (\<^verbatim>\<open>userId ? ... : false\<close>), so a viewer id of 0 counts as no viewer. The post's own id
  is an integer, passed to the counting and the membership tests as a number.
\<close>

definition enrichPostWithAuthor :: "store \<Rightarrow> post \<Rightarrow> int option \<Rightarrow> postWithAuthor" where
  "enrichPostWithAuthor s p userId =
     (let author = getUser s (post_authorId p);
          likeCount = getPostLikeCount s (Num (post_id p));
          commentCount = getCommentCount s (post_id p);
          isLiked = (case userId of None \<Rightarrow> False
                     | Some u \<Rightarrow> if u \<noteq> 0 then isPostLiked s u (Num (post_id p)) else False);
          isBookmarked = (case userId of None \<Rightarrow> False
                     | Some u \<Rightarrow>
                         if u \<noteq> 0 then isPostBookmarked s u (Num (post_id p)) else False)
      in \<lparr>pwa_post = p,
          pwa_author =
            (case author of
               Some a \<Rightarrow> \<lparr>author_id = user_id a, author_displayName = user_displayName a,
                          author_username = user_username a, author_avatar = user_avatar a\<rparr>
             | None \<Rightarrow> \<lparr>author_id = 0, author_displayName = ''Unknown User'',
                        author_username = ''unknown'', author_avatar = None\<rparr>),
          pwa_likeCount = likeCount, pwa_commentCount = commentCount,
          pwa_isLiked = isLiked, pwa_isBookmarked = isBookmarked\<rparr>)"

definition getPosts :: "store \<Rightarrow> int option \<Rightarrow> int option \<Rightarrow> int option \<Rightarrow> postWithAuthor list" where
  "getPosts s limit offset userId =
     (let lim = orDefault 10 limit; off = orDefault 0 offset;
          allPosts = slice (sortNewestFirst post_createdAt
                              (filter post_published (Map_values (posts s))))
                       off (off + lim)
      in map (\<lambda>p. enrichPostWithAuthor s p userId) allPosts)"

definition getPost :: "store \<Rightarrow> int \<Rightarrow> int option \<Rightarrow> postWithAuthor option" where
  "getPost s i userId =
     (case Map_get (posts s) i of
        None \<Rightarrow> None
      | Some p \<Rightarrow> if \<not> post_published p then None else Some (enrichPostWithAuthor s p userId))"

definition getPostsByAuthor :: "store \<Rightarrow> int \<Rightarrow> int option \<Rightarrow> postWithAuthor list" where
  "getPostsByAuthor s authorId userId =
     (let authorPosts = sortNewestFirst post_createdAt
            (filter (\<lambda>p. post_authorId p = authorId \<and> post_published p)
               (Map_values (posts s)))
      in map (\<lambda>p. enrichPostWithAuthor s p userId) authorPosts)"

definition getPostsByTag :: "store \<Rightarrow> string \<Rightarrow> int option \<Rightarrow> postWithAuthor list" where
  "getPostsByTag s tag userId =
     (let taggedPosts = sortNewestFirst post_createdAt
            (filter (\<lambda>p. post_published p \<and>
                          (case post_tags p of None \<Rightarrow> False | Some ts \<Rightarrow> tag \<in> set ts))
               (Map_values (posts s)))
      in map (\<lambda>p. enrichPostWithAuthor s p userId) taggedPosts)"

definition createPost :: "store \<Rightarrow> insertPost \<Rightarrow> int \<Rightarrow> post \<times> store" where
  "createPost s postData now =
     (let i = cur_posts (currentId s);
          p = \<lparr>post_id = i, post_title = ip_title postData, post_content = ip_content postData,
               post_excerpt = ip_excerpt postData, post_authorId = ip_authorId postData,
               post_image = orNull (ip_image postData), post_tags = ip_tags postData,
               post_published = orDefault True (ip_published postData),
               post_createdAt = now, post_updatedAt = now\<rparr>
      in (p, s\<lparr>posts := Map_set (posts s) i p,
               currentId := (currentId s)\<lparr>cur_posts := i + 1\<rparr>\<rparr>))"

text \<open>
  \<^verbatim>\<open>{...existingPost, ...postData, updatedAt: new Date()}\<close>: a supplied field replaces the
  stored one, a field left out keeps it, and \<^verbatim>\<open>updatedAt\<close> is always the current time.
\<close>

definition updatePost :: "store \<Rightarrow> int \<Rightarrow> partialInsertPost \<Rightarrow> int \<Rightarrow> post option \<times> store" where
  "updatePost s i postData now =
     (case Map_get (posts s) i of
        None \<Rightarrow> (None, s)
      | Some existingPost \<Rightarrow>
          (let updatedPost = existingPost
                 \<lparr>post_title := orDefault (post_title existingPost) (pp_title postData),
                  post_content := orDefault (post_content existingPost) (pp_content postData),
                  post_excerpt := orDefault (post_excerpt existingPost) (pp_excerpt postData),
                  post_authorId := orDefault (post_authorId existingPost) (pp_authorId postData),
                  post_image := orDefault (post_image existingPost) (pp_image postData),
                  post_tags := orDefault (post_tags existingPost) (pp_tags postData),
                  post_published :=
                    orDefault (post_published existingPost) (pp_published postData),
                  post_updatedAt := now\<rparr>
           in (Some updatedPost, s\<lparr>posts := Map_set (posts s) i updatedPost\<rparr>)))"

definition deletePost :: "store \<Rightarrow> int \<Rightarrow> int \<Rightarrow> bool \<times> store" where
  "deletePost s i authorId =
     (case Map_get (posts s) i of
        None \<Rightarrow> (False, s)
      | Some p \<Rightarrow>
          if post_authorId p \<noteq> authorId then (False, s)
          else (let (deleted, m) = Map_delete (posts s) i in (deleted, s\<lparr>posts := m\<rparr>)))"

definition searchMatches :: "string \<Rightarrow> post \<Rightarrow> bool" where
  "searchMatches lowerQuery p =
     (post_published p \<and>
       (includes_str (toLowerCase (post_title p)) lowerQuery \<or>
        includes_str (toLowerCase (post_content p)) lowerQuery \<or>
        (case post_tags p of
           None \<Rightarrow> False
         | Some ts \<Rightarrow> list_ex (\<lambda>tag. includes_str (toLowerCase tag) lowerQuery) ts)))"

definition searchPosts :: "store \<Rightarrow> string \<Rightarrow> int option \<Rightarrow> postWithAuthor list" where
  "searchPosts s query userId =
     (let lowerQuery = toLowerCase query;
          matchingPosts = sortNewestFirst post_createdAt
            (filter (searchMatches lowerQuery) (Map_values (posts s)))
      in map (\<lambda>p. enrichPostWithAuthor s p userId) matchingPosts)"

subsection \<open>Follows\<close>

datatype error = CannotFollowYourself

definition followUser :: "store \<Rightarrow> int \<Rightarrow> number \<Rightarrow> int \<Rightarrow> error + follow \<times> store" where
  "followUser s followerId followingId now =
     (if strictEq (Num followerId) followingId then Inl CannotFollowYourself
      else
        (case find (\<lambda>f. follow_followerId f = followerId \<and>
                         strictEq (follow_followingId f) followingId)
                (Map_values (follows s)) of
           Some existing \<Rightarrow> Inr (existing, s)
         | None \<Rightarrow>
             (let i = cur_follows (currentId s);
                  f = \<lparr>follow_id = i, follow_followerId = followerId,
                       follow_followingId = followingId, follow_createdAt = now\<rparr>
              in Inr (f, s\<lparr>follows := Map_set (follows s) i f,
                           currentId := (currentId s)\<lparr>cur_follows := i + 1\<rparr>\<rparr>))))"

definition unfollowUser :: "store \<Rightarrow> int \<Rightarrow> number \<Rightarrow> bool \<times> store" where
  "unfollowUser s followerId followingId =
     (case find (\<lambda>(_, f). follow_followerId f = followerId \<and>
                            strictEq (follow_followingId f) followingId)
             (Map_entries (follows s)) of
        None \<Rightarrow> (False, s)
      | Some (k, _) \<Rightarrow>
          (let (deleted, m) = Map_delete (follows s) k in (deleted, s\<lparr>follows := m\<rparr>)))"

subsection \<open>Messages\<close>

definition sendMessage :: "store \<Rightarrow> insertMessage \<Rightarrow> int \<Rightarrow> message \<times> store" where
  "sendMessage s messageData now =
     (let i = cur_messages (currentId s);
          m = \<lparr>message_id = i, message_senderId = im_senderId messageData,
               message_receiverId = im_receiverId messageData,
               message_content = im_content messageData,
               message_isRead = orDefault False (im_isRead messageData),
               message_createdAt = now\<rparr>
      in (m, s\<lparr>messages := Map_set (messages s) i m,
               currentId := (currentId s)\<lparr>cur_messages := i + 1\<rparr>\<rparr>))"

text \<open>The other party of a message, seen from \<open>userId\<close>.\<close>

definition otherParty :: "int \<Rightarrow> message \<Rightarrow> int" where
  "otherParty userId m =
     (if message_senderId m = userId then message_receiverId m else message_senderId m)"

definition unreadFrom :: "store \<Rightarrow> int \<Rightarrow> int \<Rightarrow> nat" where
  "unreadFrom s userId otherUserId =
     length (filter (\<lambda>m. message_senderId m = otherUserId \<and> message_receiverId m = userId \<and>
                          \<not> message_isRead m)
               (Map_values (messages s)))"

text \<open>
  The first loop of \<^verbatim>\<open>getConversations\<close>: scanning the user's messages newest first, the
  first message met for each other party enters \<^verbatim>\<open>conversationMap\<close> with that party's
  unread count.
\<close>

fun conversationLoop ::
  "store \<Rightarrow> int \<Rightarrow> message list \<Rightarrow> (int \<times> message \<times> nat) list \<Rightarrow> (int \<times> message \<times> nat) list"
where
  "conversationLoop s userId [] conversationMap = conversationMap"
| "conversationLoop s userId (m # ms) conversationMap =
     (let otherUserId = otherParty userId m
      in if \<not> Map_has conversationMap otherUserId
         then conversationLoop s userId ms
                (Map_set conversationMap otherUserId (m, unreadFrom s userId otherUserId))
         else conversationLoop s userId ms conversationMap)"

text \<open>The second loop: a conversation is pushed only when the participant resolves.\<close>

fun pushConversations :: "store \<Rightarrow> (int \<times> message \<times> nat) list \<Rightarrow> conversation list" where
  "pushConversations s [] = []"
| "pushConversations s ((otherUserId, lastMessage, unreadCount) # rest) =
     (case getUser s otherUserId of
        Some participant \<Rightarrow>
          \<lparr>conv_participant =
             \<lparr>author_id = user_id participant,
              author_displayName = user_displayName participant,
              author_username = user_username participant,
              author_avatar = user_avatar participant\<rparr>,
           conv_lastMessage = lastMessage, conv_unreadCount = unreadCount\<rparr>
          # pushConversations s rest
      | None \<Rightarrow> pushConversations s rest)"

definition getConversations :: "store \<Rightarrow> int \<Rightarrow> conversation list" where
  "getConversations s userId =
     (let userMessages = sortNewestFirst message_createdAt
            (filter (\<lambda>m. message_senderId m = userId \<or> message_receiverId m = userId)
               (Map_values (messages s)));
          conversationMap = conversationLoop s userId userMessages [];
          conversations = pushConversations s (Map_entries conversationMap)
      in sortNewestFirst (\<lambda>c. message_createdAt (conv_lastMessage c)) conversations)"

definition markMessagesAsRead :: "store \<Rightarrow> int \<Rightarrow> int \<Rightarrow> bool \<times> store" where
  "markMessagesAsRead s userId otherUserId =
     (let messagesToMark =
            filter (\<lambda>(_, m). message_senderId m = otherUserId \<and> message_receiverId m = userId \<and>
                              \<not> message_isRead m)
              (Map_entries (messages s));
          marked = foldl (\<lambda>ms (i, m). Map_set ms i (m\<lparr>message_isRead := True\<rparr>))
                     (messages s) messagesToMark
      in (length messagesToMark > 0, s\<lparr>messages := marked\<rparr>))"

definition getUnreadMessageCount :: "store \<Rightarrow> int \<Rightarrow> nat" where
  "getUnreadMessageCount s userId =
     length (filter (\<lambda>m. message_receiverId m = userId \<and> \<not> message_isRead m)
               (Map_values (messages s)))"

subsection \<open>Well-formed stores and counting\<close>

text \<open>
  Every operation that inserts an entity stores it under its own \<^verbatim>\<open>id\<close>. The predicates
  below say so for the posts and the users of a store; they are executable.
\<close>

definition posts_wf :: "store \<Rightarrow> bool" where
  "posts_wf s = list_all (\<lambda>(k, p). post_id p = k) (posts s)"

definition users_wf :: "store \<Rightarrow> bool" where
  "users_wf s = list_all (\<lambda>(k, u). user_id u = k) (users s)"

text \<open>
  How many Like records of a store carry a given user id and a given post id (as the
  fields stand: two records that both carry \<^verbatim>\<open>NaN\<close> carry the same post id).
\<close>

definition likeCountOf :: "store \<Rightarrow> int \<Rightarrow> number \<Rightarrow> nat" where
  "likeCountOf s userId postId =
     length (filter (\<lambda>l. like_userId l = userId \<and> like_postId l = postId)
               (Map_values (likes s)))"

text \<open>How many Follow records of a store carry a given follower id and followed id.\<close>

definition followCountOf :: "store \<Rightarrow> int \<Rightarrow> number \<Rightarrow> nat" where
  "followCountOf s followerId followingId =
     length (filter (\<lambda>f. follow_followerId f = followerId \<and> follow_followingId f = followingId)
               (Map_values (follows s)))"

text \<open>No pair of follower id and followed id occurs in two Follow records.\<close>

definition followsUnique :: "store \<Rightarrow> bool" where
  "followsUnique s =
     distinct (map (\<lambda>f. (follow_followerId f, follow_followingId f)) (Map_values (follows s)))"

subsection \<open>A scenario\<close>

text \<open>
  The scenario of the specification, run on the store: Alice, Bob and Carol register,
  Alice publishes a post and Bob keeps a draft, Bob likes, comments on and bookmarks
  Alice's post and follows her, and messages are exchanged.
\<close>

definition alice :: insertUser where
  "alice = \<lparr>iu_email = ''alice@example.com'', iu_username = ''alice'',
            iu_password = ''secret-a'', iu_displayName = ''Alice'', iu_bio = None,
            iu_avatar = None\<rparr>"

definition bob :: insertUser where
  "bob = \<lparr>iu_email = ''bob@example.com'', iu_username = ''bob'', iu_password = ''secret-b'',
          iu_displayName = ''Bob'', iu_bio = Some '''', iu_avatar = None\<rparr>"

definition carol :: insertUser where
  "carol = \<lparr>iu_email = ''carol@example.com'', iu_username = ''carol'',
            iu_password = ''secret-c'', iu_displayName = ''Carol'', iu_bio = None,
            iu_avatar = None\<rparr>"

definition helloPost :: insertPost where
  "helloPost = \<lparr>ip_title = ''Hello'', ip_content = ''World'', ip_excerpt = ''World'',
                ip_authorId = 1, ip_image = None, ip_tags = Some [''intro''],
                ip_published = None\<rparr>"

definition draftPost :: insertPost where
  "draftPost = \<lparr>ip_title = ''Draft'', ip_content = ''Not yet'', ip_excerpt = ''Not yet'',
                ip_authorId = 2, ip_image = None, ip_tags = None,
                ip_published = Some False\<rparr>"

definition threeUsers :: store where
  "threeUsers =
     snd (createUser
            (snd (createUser (snd (createUser MemStorage alice ''hash-a'' 1000))
                    bob ''hash-b'' 2000))
            carol ''hash-c'' 2500)"

definition twoPosts :: store where
  "twoPosts = snd (createPost (snd (createPost threeUsers helloPost 3000)) draftPost 4000)"

definition social :: store where
  "social =
     (let s1 = snd (likePost twoPosts 2 (Num 1) 5000);
          s2 = snd (createComment s1
                      \<lparr>ic_postId = 1, ic_userId = 2, ic_content = ''Nice''\<rparr> 5100);
          s3 = snd (bookmarkPost s2 2 (Num 1) 5200)
      in case followUser s3 2 (Num 1) 5300 of Inl e \<Rightarrow> s3 | Inr (f, s4) \<Rightarrow> s4)"

definition inbox :: store where
  "inbox =
     (let s1 = snd (sendMessage social
                      \<lparr>im_senderId = 1, im_receiverId = 2, im_content = ''one'',
                       im_isRead = None\<rparr> 6000);
          s2 = snd (sendMessage s1
                      \<lparr>im_senderId = 3, im_receiverId = 2, im_content = ''hello'',
                       im_isRead = None\<rparr> 6500);
          s3 = snd (sendMessage s2
                      \<lparr>im_senderId = 1, im_receiverId = 2, im_content = ''two'',
                       im_isRead = None\<rparr> 7000);
          s4 = snd (sendMessage s3
                      \<lparr>im_senderId = 2, im_receiverId = 1, im_content = ''reply'',
                       im_isRead = None\<rparr> 7500)
      in snd (sendMessage s4
                \<lparr>im_senderId = 1, im_receiverId = 2, im_content = ''three'',
                 im_isRead = None\<rparr> 8000))"

text \<open>Alice writes to an id that no user has.\<close>

definition ghostMessage :: store where
  "ghostMessage =
     snd (sendMessage threeUsers
            \<lparr>im_senderId = 1, im_receiverId = 99, im_content = ''anyone?'',
             im_isRead = None\<rparr> 9000)"

text \<open>
  Alice, logged in, requests \<^verbatim>\<open>POST /api/posts/abc/like\<close> twice and
  \<^verbatim>\<open>POST /api/users/abc/follow\<close> twice: \<^verbatim>\<open>parseInt("abc")\<close> is \<^verbatim>\<open>NaN\<close>.
\<close>

definition likedNaNOnce :: store where
  "likedNaNOnce = snd (likePost twoPosts 1 NaN 5000)"

definition likedNaNTwice :: store where
  "likedNaNTwice = snd (likePost likedNaNOnce 1 NaN 5001)"

definition nanLike :: "int \<Rightarrow> int \<Rightarrow> like" where
  "nanLike i createdAt =
     \<lparr>like_id = i, like_userId = 1, like_postId = NaN, like_createdAt = createdAt\<rparr>"

definition followedNaNOnce :: store where
  "followedNaNOnce =
     (case followUser twoPosts 1 NaN 5000 of Inl e \<Rightarrow> twoPosts | Inr (f, s) \<Rightarrow> s)"

definition followedNaNTwice :: store where
  "followedNaNTwice =
     (case followUser followedNaNOnce 1 NaN 5001 of
        Inl e \<Rightarrow> followedNaNOnce
      | Inr (f, s) \<Rightarrow> s)"

definition nanFollow :: "int \<Rightarrow> int \<Rightarrow> follow" where
  "nanFollow i createdAt =
     \<lparr>follow_id = i, follow_followerId = 1, follow_followingId = NaN,
      follow_createdAt = createdAt\<rparr>"

text \<open>The entities of the scenario, written out.\<close>

definition userAlice :: user where
  "userAlice = \<lparr>user_id = 1, user_email = ''alice@example.com'', user_username = ''alice'',
                user_password = ''hash-a'', user_displayName = ''Alice'', user_bio = None,
                user_avatar = None, user_createdAt = 1000\<rparr>"

definition userBob :: user where
  "userBob = \<lparr>user_id = 2, user_email = ''bob@example.com'', user_username = ''bob'',
              user_password = ''hash-b'', user_displayName = ''Bob'', user_bio = None,
              user_avatar = None, user_createdAt = 2000\<rparr>"

definition userCarol :: user where
  "userCarol = \<lparr>user_id = 3, user_email = ''carol@example.com'', user_username = ''carol'',
                user_password = ''hash-c'', user_displayName = ''Carol'', user_bio = None,
                user_avatar = None, user_createdAt = 2500\<rparr>"

definition postHello :: post where
  "postHello = \<lparr>post_id = 1, post_title = ''Hello'', post_content = ''World'',
                post_excerpt = ''World'', post_authorId = 1, post_image = None,
                post_tags = Some [''intro''], post_published = True, post_createdAt = 3000,
                post_updatedAt = 3000\<rparr>"

definition postDraft :: post where
  "postDraft = \<lparr>post_id = 2, post_title = ''Draft'', post_content = ''Not yet'',
                post_excerpt = ''Not yet'', post_authorId = 2, post_image = None,
                post_tags = None, post_published = False, post_createdAt = 4000,
                post_updatedAt = 4000\<rparr>"

definition bobsLike :: like where
  "bobsLike = \<lparr>like_id = 1, like_userId = 2, like_postId = Num 1, like_createdAt = 5000\<rparr>"

definition bobsFollow :: follow where
  "bobsFollow = \<lparr>follow_id = 1, follow_followerId = 2, follow_followingId = Num 1,
                 follow_createdAt = 5300\<rparr>"

definition msg :: "int \<Rightarrow> int \<Rightarrow> int \<Rightarrow> string \<Rightarrow> bool \<Rightarrow> int \<Rightarrow> message" where
  "msg i sender receiver content isRead createdAt =
     \<lparr>message_id = i, message_senderId = sender, message_receiverId = receiver,
      message_content = content, message_isRead = isRead, message_createdAt = createdAt\<rparr>"

definition dave :: insertUser where
  "dave = \<lparr>iu_email = ''dave@example.com'', iu_username = ''dave'', iu_password = ''secret-d'',
           iu_displayName = ''Dave'', iu_bio = Some ''Hi'', iu_avatar = None\<rparr>"

definition userDave :: user where
  "userDave = \<lparr>user_id = 4, user_email = ''dave@example.com'', user_username = ''dave'',
               user_password = ''hash-d'', user_displayName = ''Dave'', user_bio = Some ''Hi'',
               user_avatar = None, user_createdAt = 9000\<rparr>"

definition retitle :: partialInsertPost where
  "retitle = \<lparr>pp_title = Some ''Hi'', pp_content = None, pp_excerpt = None,
              pp_authorId = None, pp_image = None, pp_tags = Some None,
              pp_published = None\<rparr>"

text \<open>Two more posts, published out of order of their ids.\<close>

definition newsPost :: insertPost where
  "newsPost = \<lparr>ip_title = ''World news'', ip_content = ''Today'', ip_excerpt = ''Today'',
               ip_authorId = 1, ip_image = None, ip_tags = Some [''News'', ''intro''],
               ip_published = Some True\<rparr>"

definition otherPost :: insertPost where
  "otherPost = \<lparr>ip_title = ''Other'', ip_content = ''hello WORLD'', ip_excerpt = ''hello'',
                ip_authorId = 2, ip_image = None, ip_tags = None,
                ip_published = None\<rparr>"

definition fourPosts :: store where
  "fourPosts = snd (createPost (snd (createPost twoPosts newsPost 6000)) otherPost 5000)"

definition postNews :: post where
  "postNews = \<lparr>post_id = 3, post_title = ''World news'', post_content = ''Today'',
               post_excerpt = ''Today'', post_authorId = 1, post_image = None,
               post_tags = Some [''News'', ''intro''], post_published = True,
               post_createdAt = 6000, post_updatedAt = 6000\<rparr>"

definition postOther :: post where
  "postOther = \<lparr>post_id = 4, post_title = ''Other'', post_content = ''hello WORLD'',
                post_excerpt = ''hello'', post_authorId = 2, post_image = None,
                post_tags = None, post_published = True, post_createdAt = 5000,
                post_updatedAt = 5000\<rparr>"

text \<open>
  A post whose title has an accented capital: \<^verbatim>\<open>CAF\<close> and the unit 201, the capital E
  with an acute accent, whose lower-case letter is the unit 233.
\<close>

definition cafePost :: insertPost where
  "cafePost = \<lparr>ip_title = ''CAF'' @ [CHR 0xC9], ip_content = ''Open'', ip_excerpt = ''Open'',
               ip_authorId = 2, ip_image = None, ip_tags = None, ip_published = None\<rparr>"

definition fivePosts :: store where
  "fivePosts = snd (createPost fourPosts cafePost 7000)"

definition postCafe :: post where
  "postCafe = \<lparr>post_id = 5, post_title = ''CAF'' @ [CHR 0xC9], post_content = ''Open'',
               post_excerpt = ''Open'', post_authorId = 2, post_image = None,
               post_tags = None, post_published = True, post_createdAt = 7000,
               post_updatedAt = 7000\<rparr>"

text \<open>
  The ids of the users are issued from 1: the counter is positive and so is every key
  of the user map.
\<close>

definition userIdsFromOne :: "store \<Rightarrow> bool" where
  "userIdsFromOne s =
     (0 < cur_users (currentId s) \<and> list_all (\<lambda>(k, u). 0 < k) (users s))"

text \<open>A list of posts is newest first when creation times never increase along it.\<close>

definition newestFirst :: "post list \<Rightarrow> bool" where
  "newestFirst ps = sorted_wrt (\<lambda>a b. post_createdAt b \<le> post_createdAt a) ps"

text \<open>What a conversation says, as a triple: the participant's id, the last message, the count.\<close>

definition convTriple :: "conversation \<Rightarrow> int \<times> message \<times> nat" where
  "convTriple c = (author_id (conv_participant c), conv_lastMessage c, conv_unreadCount c)"

section \<open>Properties\<close>

subsection \<open>Lists and maps\<close>

lemma strictEq_simps [simp]:
  "strictEq (Num x) (Num y) = (x = y)"
  "strictEq NaN b = False"
  "strictEq a NaN = False"
  by (simp_all add: strictEq_def split: number.splits)

lemma strictEq_Num_iff: "strictEq a (Num y) = (a = Num y)"
  by (cases a) simp_all

lemma find_unique:
  assumes "x \<in> set xs" and "P x" and "\<forall>y\<in>set xs. P y \<longrightarrow> y = x"
  shows "find P xs = Some x"
proof -
  from assms(1,2) have "find P xs \<noteq> None"
    by (auto simp: find_None_iff)
  then obtain y where y: "find P xs = Some y" by blast
  then have "y \<in> set xs \<and> P y"
    by (metis find_Some_iff nth_mem)
  with assms(3) have "y = x" by blast
  with y show ?thesis by simp
qed

lemma Map_set_values_mem: "v \<in> set (Map_values (Map_set m k v))"
  by (induction m) (auto simp: Map_values_def Map_set_def)

lemma Map_set_values_subset:
  "set (Map_values (Map_set m k v)) \<subseteq> insert v (set (Map_values m))"
  by (induction m) (auto simp: Map_values_def Map_set_def)

lemma Map_get_set: "Map_get (Map_set m k v) j = (if j = k then Some v else Map_get m j)"
  by (simp add: Map_get_def Map_set_def update_conv')

lemma Map_set_keys_present:
  "Map_get m k = Some v \<Longrightarrow> map fst (Map_set m k w) = map fst m"
  by (induction m) (auto simp: Map_get_def Map_set_def split: if_splits)

lemma count_update_new:
  assumes "P v" and "\<forall>x\<in>set (map snd m). \<not> P x"
  shows "length (filter P (map snd (AList.update k v m))) = 1"
  using assms by (induction m) auto

lemma set_slice_subset: "set (slice xs a b) \<subseteq> set xs"
proof -
  have "set (take n (drop k xs)) \<subseteq> set xs" for n k
    by (meson set_take_subset set_drop_subset subset_trans)
  then show ?thesis by (simp add: slice_def Let_def)
qed

lemma set_sortNewestFirst [simp]: "set (sortNewestFirst f xs) = set xs"
  by (simp add: sortNewestFirst_def)

lemma pwa_post_enrich [simp]: "pwa_post (enrichPostWithAuthor s p v) = p"
  by (simp add: enrichPostWithAuthor_def)

lemma getPosts_posts:
  "map pwa_post (getPosts s limit offset viewer) =
     slice (sortNewestFirst post_createdAt (filter post_published (Map_values (posts s))))
       (orDefault 0 offset) (orDefault 0 offset + orDefault 10 limit)"
  by (simp add: getPosts_def Let_def comp_def)

lemma delete_keys_not_mem: "(k, v) \<notin> set (AList.delete k m)"
  by (induction m) auto

lemma set_delete_subset: "set (AList.delete k m) \<subseteq> set m"
  by (induction m) auto


lemma find_entries_None:
  "find (\<lambda>(_, l). P l) m = None \<longleftrightarrow> find P (map snd m) = None"
  by (induction m) auto

lemma find_Some_mem:
  assumes "find P xs = Some x"
  shows "x \<in> set xs \<and> P x"
  using assms by (metis find_Some_iff nth_mem)

lemma sorted_wrt_sortNewestFirst:
  "sorted_wrt (\<lambda>a b. f b \<le> f a) (sortNewestFirst f xs)"
proof -
  have "sorted (map (\<lambda>x. - f x) (sort_key (\<lambda>x. - f x) xs))"
    by (rule sorted_sort_key)
  then show ?thesis
    by (simp add: sortNewestFirst_def sorted_wrt_map)
qed

lemma mset_sortNewestFirst [simp]: "mset (sortNewestFirst f xs) = mset xs"
  by (simp add: sortNewestFirst_def)

lemma map_pwa_post_enrich [simp]:
  "map (pwa_post \<circ> (\<lambda>p. enrichPostWithAuthor s p v)) ps = ps"
  by (induction ps) simp_all

subsection \<open>The well-formedness conditions hold in every store the operations build\<close>

lemma list_all_update:
  assumes "list_all P m" and "P (k, v)"
  shows "list_all P (AList.update k v m)"
  using assms by (induction m) auto

lemma list_all_delete: "list_all P m \<Longrightarrow> list_all P (AList.delete k m)"
  by (induction m) auto

lemma distinct_keys_Map_set:
  "distinct (map fst m) \<Longrightarrow> distinct (map fst (Map_set m k v))"
  by (simp add: Map_set_def distinct_update)

lemma distinct_keys_Map_delete:
  "distinct (map fst m) \<Longrightarrow> distinct (map fst (snd (Map_delete m k)))"
  by (simp add: Map_delete_def distinct_delete)

lemma wf_MemStorage:
  "users_wf MemStorage" "posts_wf MemStorage"
  "distinct (map fst (messages MemStorage))" "distinct (map fst (likes MemStorage))"
  "distinct (map fst (comments MemStorage))"
  by (simp_all add: users_wf_def posts_wf_def MemStorage_def)

lemma users_wf_createUser:
  "users_wf s \<Longrightarrow> users_wf (snd (createUser s userData hashedPassword now))"
  by (simp add: users_wf_def createUser_def Let_def Map_set_def list_all_update)

lemma posts_wf_createPost:
  "posts_wf s \<Longrightarrow> posts_wf (snd (createPost s postData now))"
  by (simp add: posts_wf_def createPost_def Let_def Map_set_def list_all_update)

lemma posts_wf_updatePost:
  assumes "posts_wf s"
  shows "posts_wf (snd (updatePost s i postData now))"
proof (cases "Map_get (posts s) i")
  case None
  with assms show ?thesis by (simp add: updatePost_def)
next
  case (Some p)
  then have "(i, p) \<in> set (posts s)"
    by (auto simp: Map_get_def dest: map_of_SomeD)
  with assms have "post_id p = i"
    by (auto simp: posts_wf_def list_all_iff)
  with assms Some show ?thesis
    by (simp add: posts_wf_def updatePost_def Let_def Map_set_def list_all_update)
qed

lemma posts_wf_deletePost:
  "posts_wf s \<Longrightarrow> posts_wf (snd (deletePost s i authorId))"
  by (simp add: posts_wf_def deletePost_def Map_delete_def list_all_delete
      split: option.splits)

lemma distinct_messages_sendMessage:
  "distinct (map fst (messages s)) \<Longrightarrow>
     distinct (map fst (messages (snd (sendMessage s messageData now))))"
  by (simp add: sendMessage_def Let_def distinct_keys_Map_set)

lemma distinct_likes_likePost:
  "distinct (map fst (likes s)) \<Longrightarrow>
     distinct (map fst (likes (snd (likePost s userId postId now))))"
  by (simp add: likePost_def Let_def distinct_keys_Map_set split: option.splits)

lemma distinct_likes_unlikePost:
  "distinct (map fst (likes s)) \<Longrightarrow>
     distinct (map fst (likes (snd (unlikePost s userId postId))))"
  by (simp add: unlikePost_def Map_delete_def distinct_delete split: option.splits prod.splits)

lemma distinct_comments_createComment:
  "distinct (map fst (comments s)) \<Longrightarrow>
     distinct (map fst (comments (snd (createComment s commentData now))))"
  by (simp add: createComment_def Let_def distinct_keys_Map_set)

subsection \<open>The scenario, evaluated\<close>

lemma threeUsers_eq:
  "threeUsers = \<lparr>users = [(1, userAlice), (2, userBob), (3, userCarol)],
     posts = [], likes = [], comments = [], bookmarks = [], follows = [], messages = [],
     currentId =
       \<lparr>cur_users = 4, cur_posts = 1, cur_likes = 1, cur_comments = 1, cur_bookmarks = 1,
          cur_follows = 1, cur_messages = 1\<rparr>\<rparr>"
  by (simp add: threeUsers_def createUser_def MemStorage_def alice_def bob_def carol_def
      Map_set_def orNull_def Let_def userAlice_def userBob_def userCarol_def)

lemma twoPosts_eq:
  "twoPosts = \<lparr>users = [(1, userAlice), (2, userBob), (3, userCarol)],
     posts = [(1, postHello), (2, postDraft)],
     likes = [], comments = [], bookmarks = [], follows = [], messages = [],
     currentId =
       \<lparr>cur_users = 4, cur_posts = 3, cur_likes = 1, cur_comments = 1, cur_bookmarks = 1,
          cur_follows = 1, cur_messages = 1\<rparr>\<rparr>"
  by (simp add: twoPosts_def threeUsers_eq createPost_def helloPost_def draftPost_def
      Map_set_def orNull_def orDefault_def Let_def postHello_def postDraft_def)

lemma social_eq:
  "social = \<lparr>users = [(1, userAlice), (2, userBob), (3, userCarol)],
     posts = [(1, postHello), (2, postDraft)],
     likes = [(1, bobsLike)],
     comments = [(1, \<lparr>comment_id = 1, comment_postId = 1, comment_userId = 2,
                      comment_content = ''Nice'', comment_createdAt = 5100\<rparr>)],
     bookmarks = [(1, \<lparr>bookmark_id = 1, bookmark_userId = 2, bookmark_postId = Num 1,
                       bookmark_createdAt = 5200\<rparr>)],
     follows = [(1, bobsFollow)],
     messages = [],
     currentId =
       \<lparr>cur_users = 4, cur_posts = 3, cur_likes = 2, cur_comments = 2, cur_bookmarks = 2,
          cur_follows = 2, cur_messages = 1\<rparr>\<rparr>"
  by (simp add: social_def twoPosts_eq likePost_def createComment_def bookmarkPost_def
      followUser_def Map_set_def Map_values_def Let_def bobsLike_def bobsFollow_def)

lemma inbox_eq:
  "inbox = \<lparr>users = [(1, userAlice), (2, userBob), (3, userCarol)],
     posts = [(1, postHello), (2, postDraft)],
     likes = [(1, bobsLike)],
     comments = [(1, \<lparr>comment_id = 1, comment_postId = 1, comment_userId = 2,
                      comment_content = ''Nice'', comment_createdAt = 5100\<rparr>)],
     bookmarks = [(1, \<lparr>bookmark_id = 1, bookmark_userId = 2, bookmark_postId = Num 1,
                       bookmark_createdAt = 5200\<rparr>)],
     follows = [(1, bobsFollow)],
     messages = [(1, msg 1 1 2 ''one'' False 6000), (2, msg 2 3 2 ''hello'' False 6500),
                 (3, msg 3 1 2 ''two'' False 7000), (4, msg 4 2 1 ''reply'' False 7500),
                 (5, msg 5 1 2 ''three'' False 8000)],
     currentId =
       \<lparr>cur_users = 4, cur_posts = 3, cur_likes = 2, cur_comments = 2, cur_bookmarks = 2,
          cur_follows = 2, cur_messages = 6\<rparr>\<rparr>"
  by (simp add: inbox_def social_eq sendMessage_def Map_set_def Let_def orDefault_def msg_def)

lemma ghostMessage_eq:
  "ghostMessage = \<lparr>users = [(1, userAlice), (2, userBob), (3, userCarol)],
     posts = [], likes = [], comments = [], bookmarks = [], follows = [],
     messages = [(1, msg 1 1 99 ''anyone?'' False 9000)],
     currentId =
       \<lparr>cur_users = 4, cur_posts = 1, cur_likes = 1, cur_comments = 1, cur_bookmarks = 1,
          cur_follows = 1, cur_messages = 2\<rparr>\<rparr>"
  by (simp add: ghostMessage_def threeUsers_eq sendMessage_def Map_set_def Let_def
      orDefault_def msg_def)

lemma fourPosts_eq:
  "fourPosts = \<lparr>users = [(1, userAlice), (2, userBob), (3, userCarol)],
     posts = [(1, postHello), (2, postDraft), (3, postNews), (4, postOther)],
     likes = [], comments = [], bookmarks = [], follows = [], messages = [],
     currentId =
       \<lparr>cur_users = 4, cur_posts = 5, cur_likes = 1, cur_comments = 1, cur_bookmarks = 1,
          cur_follows = 1, cur_messages = 1\<rparr>\<rparr>"
  by (simp add: fourPosts_def twoPosts_eq createPost_def newsPost_def otherPost_def
      Map_set_def orNull_def orDefault_def Let_def postNews_def postOther_def)

lemma fivePosts_eq:
  "fivePosts = \<lparr>users = [(1, userAlice), (2, userBob), (3, userCarol)],
     posts = [(1, postHello), (2, postDraft), (3, postNews), (4, postOther), (5, postCafe)],
     likes = [], comments = [], bookmarks = [], follows = [], messages = [],
     currentId =
       \<lparr>cur_users = 4, cur_posts = 6, cur_likes = 1, cur_comments = 1, cur_bookmarks = 1,
          cur_follows = 1, cur_messages = 1\<rparr>\<rparr>"
  by (simp add: fivePosts_def fourPosts_eq createPost_def cafePost_def
      Map_set_def orNull_def orDefault_def Let_def postCafe_def)

subsection \<open>Counts and flags of an enriched post\<close>

lemma userIdsFromOne_MemStorage: "userIdsFromOne MemStorage"
  by (simp add: userIdsFromOne_def MemStorage_def)

lemma userIdsFromOne_createUser:
  assumes "userIdsFromOne s"
  shows "userIdsFromOne (snd (createUser s userData hashedPassword now))"
  using assms
  by (simp add: userIdsFromOne_def createUser_def Let_def Map_set_def list_all_update)

lemma stored_user_id_not_zero:
  assumes "userIdsFromOne s" and "getUser s u = Some usr"
  shows "u \<noteq> 0"
proof -
  from assms(2) have "(u, usr) \<in> set (users s)"
    by (auto simp: getUser_def Map_get_def dest: map_of_SomeD)
  with assms(1) have "0 < u"
    by (auto simp: userIdsFromOne_def list_all_iff)
  then show ?thesis by simp
qed

lemma count_values_card:
  assumes "distinct (map fst m)"
  shows "length (filter P (Map_values m)) = card {k. \<exists>v. Map_get m k = Some v \<and> P v}"
  using assms
proof (induction m)
  case Nil
  then show ?case by (simp add: Map_values_def Map_get_def)
next
  case (Cons a m)
  obtain k v where a: "a = (k, v)" by (cases a)
  let ?S = "{k'. \<exists>v'. Map_get m k' = Some v' \<and> P v'}"
  have k: "k \<notin> fst ` set m" using Cons.prems a by simp
  have fin: "finite ?S"
  proof (rule finite_subset)
    show "?S \<subseteq> fst ` set m"
      by (auto simp: Map_get_def dest: map_of_SomeD intro: rev_image_eqI)
    show "finite (fst ` set m)" by simp
  qed
  have notin: "k \<notin> ?S"
    using k by (auto simp: Map_get_def dest: map_of_SomeD intro: rev_image_eqI)
  have ih: "length (filter P (Map_values m)) = card ?S"
    using Cons.IH Cons.prems by simp
  have set_eq: "{k'. \<exists>v'. Map_get (a # m) k' = Some v' \<and> P v'} =
                (if P v then insert k ?S else ?S)"
    using notin by (auto simp: a Map_get_def)
  show ?case
    unfolding set_eq using ih fin notin by (simp add: a Map_values_def)
qed

lemma getPost_Some_post:
  assumes "posts_wf s" and "getPost s p viewer = Some r"
  shows "post_id (pwa_post r) = p \<and> r = enrichPostWithAuthor s (pwa_post r) viewer"
proof -
  from assms(2) obtain q where q: "Map_get (posts s) p = Some q"
    and r: "r = enrichPostWithAuthor s q viewer"
    by (auto simp: getPost_def split: option.splits if_splits)
  from q have "(p, q) \<in> set (posts s)"
    by (auto simp: Map_get_def dest: map_of_SomeD)
  with assms(1) have "post_id q = p"
    by (auto simp: posts_wf_def list_all_iff)
  with r show ?thesis by simp
qed

lemma getPosts_enriched:
  assumes "r \<in> set (getPosts s limit offset viewer)"
  shows "r = enrichPostWithAuthor s (pwa_post r) viewer"
  using assms by (auto simp: getPosts_def Let_def)

lemma enrich_counts:
  assumes "r = enrichPostWithAuthor s q viewer"
  shows "pwa_likeCount r =
       length (filter (\<lambda>l. like_postId l = Num (post_id q)) (Map_values (likes s))) \<and>
     pwa_commentCount r =
       length (filter (\<lambda>c. comment_postId c = post_id q) (Map_values (comments s)))"
  unfolding assms
  by (simp add: enrichPostWithAuthor_def getPostLikeCount_def getCommentCount_def
      strictEq_Num_iff)

lemma enrich_bookmarked:
  assumes "r = enrichPostWithAuthor s q viewer" and "viewer \<noteq> Some 0"
  shows "pwa_isBookmarked r \<longleftrightarrow>
       (\<exists>u. viewer = Some u \<and>
          (\<exists>b\<in>set (Map_values (bookmarks s)).
              bookmark_userId b = u \<and> bookmark_postId b = Num (post_id q)))"
  unfolding assms(1) using assms(2)
  by (auto simp: enrichPostWithAuthor_def isPostBookmarked_def list_ex_iff strictEq_Num_iff
      split: option.splits)

text \<open>
  Claim C1. In a store whose posts are filed under their own ids, the enriched post
  that \<open>getPost\<close> returns for the id \<open>p\<close> carries the id \<open>p\<close>, a like count equal to the
  number of Like records whose post id is \<open>p\<close> and a comment count equal to the number of
  Comment records whose post id is \<open>p\<close> (the number of records in the map, which for a
  map with distinct keys is the number of its keys that hold such a record). Its
  bookmark flag is true exactly when a viewer is given and a Bookmark record for that
  viewer and \<open>p\<close> exists. The same holds for every enriched post of \<open>getPosts\<close> and the id it
  carries. The viewer is absent or the id of the user who is logged in, and the ids of
  users are issued from 1 (\<open>userIdsFromOne_MemStorage\<close>, \<open>userIdsFromOne_createUser\<close>,
  \<open>stored_user_id_not_zero\<close>): the bookmark flag is stated for a viewer id that is not 0.
\<close>

theorem enriched_counts_and_bookmark_flag:
  "(\<forall>r. posts_wf s \<and> getPost s p viewer = Some r \<longrightarrow>
      post_id (pwa_post r) = p \<and>
      pwa_likeCount r = length (filter (\<lambda>l. like_postId l = Num p) (Map_values (likes s))) \<and>
      pwa_commentCount r =
        length (filter (\<lambda>c. comment_postId c = p) (Map_values (comments s))) \<and>
      (distinct (map fst (likes s)) \<longrightarrow>
         pwa_likeCount r =
           card {k. \<exists>l. Map_get (likes s) k = Some l \<and> like_postId l = Num p}) \<and>
      (distinct (map fst (comments s)) \<longrightarrow>
         pwa_commentCount r =
           card {k. \<exists>c. Map_get (comments s) k = Some c \<and> comment_postId c = p}) \<and>
      (viewer \<noteq> Some 0 \<longrightarrow>
         (pwa_isBookmarked r \<longleftrightarrow>
           (\<exists>u. viewer = Some u \<and>
              (\<exists>b\<in>set (Map_values (bookmarks s)).
                  bookmark_userId b = u \<and> bookmark_postId b = Num p))))) \<and>
   (\<forall>r\<in>set (getPosts s limit offset viewer).
      pwa_likeCount r =
        length (filter (\<lambda>l. like_postId l = Num (post_id (pwa_post r)))
                  (Map_values (likes s))) \<and>
      pwa_commentCount r =
        length (filter (\<lambda>c. comment_postId c = post_id (pwa_post r))
                  (Map_values (comments s))) \<and>
      (distinct (map fst (likes s)) \<longrightarrow>
         pwa_likeCount r =
           card {k. \<exists>l. Map_get (likes s) k = Some l \<and>
                        like_postId l = Num (post_id (pwa_post r))}) \<and>
      (distinct (map fst (comments s)) \<longrightarrow>
         pwa_commentCount r =
           card {k. \<exists>c. Map_get (comments s) k = Some c \<and>
                        comment_postId c = post_id (pwa_post r)}) \<and>
      (viewer \<noteq> Some 0 \<longrightarrow>
         (pwa_isBookmarked r \<longleftrightarrow>
           (\<exists>u. viewer = Some u \<and>
              (\<exists>b\<in>set (Map_values (bookmarks s)).
                  bookmark_userId b = u \<and> bookmark_postId b = Num (post_id (pwa_post r)))))))"
proof (intro conjI allI ballI impI)
  fix r assume a: "posts_wf s \<and> getPost s p viewer = Some r"
  then have p: "post_id (pwa_post r) = p" and r: "r = enrichPostWithAuthor s (pwa_post r) viewer"
    using getPost_Some_post [of s p viewer r] by simp_all
  note c = enrich_counts [OF r, unfolded p]
  show "post_id (pwa_post r) = p" by (rule p)
  show lc: "pwa_likeCount r =
      length (filter (\<lambda>l. like_postId l = Num p) (Map_values (likes s)))"
    using c by blast
  show cc: "pwa_commentCount r =
        length (filter (\<lambda>c. comment_postId c = p) (Map_values (comments s)))"
    using c by blast
  show "pwa_isBookmarked r \<longleftrightarrow>
        (\<exists>u. viewer = Some u \<and>
           (\<exists>b\<in>set (Map_values (bookmarks s)).
               bookmark_userId b = u \<and> bookmark_postId b = Num p))"
    if "viewer \<noteq> Some 0"
    using enrich_bookmarked [OF r that] unfolding p .
  show "pwa_likeCount r =
      card {k. \<exists>l. Map_get (likes s) k = Some l \<and> like_postId l = Num p}"
    if "distinct (map fst (likes s))"
    unfolding lc using that by (rule count_values_card)
  show "pwa_commentCount r =
           card {k. \<exists>c. Map_get (comments s) k = Some c \<and> comment_postId c = p}"
    if "distinct (map fst (comments s))"
    unfolding cc using that by (rule count_values_card)
next
  fix r assume "r \<in> set (getPosts s limit offset viewer)"
  then have r: "r = enrichPostWithAuthor s (pwa_post r) viewer"
    by (rule getPosts_enriched)
  note c = enrich_counts [OF r]
  show lc: "pwa_likeCount r =
        length (filter (\<lambda>l. like_postId l = Num (post_id (pwa_post r)))
                  (Map_values (likes s)))"
    using c by blast
  show cc: "pwa_commentCount r =
        length (filter (\<lambda>c. comment_postId c = post_id (pwa_post r))
                  (Map_values (comments s)))"
    using c by blast
  show "pwa_isBookmarked r \<longleftrightarrow>
        (\<exists>u. viewer = Some u \<and>
           (\<exists>b\<in>set (Map_values (bookmarks s)).
               bookmark_userId b = u \<and> bookmark_postId b = Num (post_id (pwa_post r))))"
    if "viewer \<noteq> Some 0"
    using r that by (rule enrich_bookmarked)
  show "pwa_likeCount r =
           card {k. \<exists>l. Map_get (likes s) k = Some l \<and>
                        like_postId l = Num (post_id (pwa_post r))}"
    if "distinct (map fst (likes s))"
    unfolding lc using that by (rule count_values_card)
  show "pwa_commentCount r =
           card {k. \<exists>c. Map_get (comments s) k = Some c \<and>
                        comment_postId c = post_id (pwa_post r)}"
    if "distinct (map fst (comments s))"
    unfolding cc using that by (rule count_values_card)
qed

theorem enriched_counts_and_bookmark_flag_witness:
  "posts_wf social \<and> distinct (map fst (likes social)) \<and>
   distinct (map fst (comments social)) \<and>
   userIdsFromOne social \<and> getUser social 2 = Some userBob \<and>
   map_option (post_id \<circ> pwa_post) (getPost social 1 (Some 2)) = Some 1 \<and>
   map_option pwa_likeCount (getPost social 1 (Some 2)) = Some 1 \<and>
   map_option pwa_commentCount (getPost social 1 (Some 2)) = Some 1 \<and>
   map_option pwa_isBookmarked (getPost social 1 (Some 2)) = Some True \<and>
   map_option pwa_isBookmarked (getPost social 1 (Some 1)) = Some False \<and>
   map_option pwa_isBookmarked (getPost social 1 None) = Some False \<and>
   card {k. \<exists>l. Map_get (likes social) k = Some l \<and> like_postId l = Num 1} = 1 \<and>
   map pwa_likeCount (getPosts social None None (Some 2)) = [1] \<and>
   map pwa_isBookmarked (getPosts social None None (Some 2)) = [True]"
proof -
  have g: "posts_wf social" "distinct (map fst (likes social))"
    "distinct (map fst (comments social))"
    "userIdsFromOne social" "getUser social 2 = Some userBob"
    by (simp_all add: social_eq posts_wf_def postHello_def postDraft_def userIdsFromOne_def
        getUser_def Map_get_def)
  have ev: "length (filter (\<lambda>l. like_postId l = Num 1) (Map_values (likes social))) = 1"
    "length (filter (\<lambda>c. comment_postId c = 1) (Map_values (comments social))) = 1"
    "\<exists>u. Some (2::int) = Some u \<and>
       (\<exists>b\<in>set (Map_values (bookmarks social)).
           bookmark_userId b = u \<and> bookmark_postId b = Num 1)"
    "\<not> (\<exists>u. Some (1::int) = Some u \<and>
       (\<exists>b\<in>set (Map_values (bookmarks social)).
           bookmark_userId b = u \<and> bookmark_postId b = Num 1))"
    "\<not> (\<exists>u. (None :: int option) = Some u \<and>
       (\<exists>b\<in>set (Map_values (bookmarks social)).
           bookmark_userId b = u \<and> bookmark_postId b = Num 1))"
    by (simp_all add: social_eq Map_values_def bobsLike_def)
  have nz: "Some (2::int) \<noteq> Some 0" "Some (1::int) \<noteq> Some 0" "(None :: int option) \<noteq> Some 0"
    by simp_all
  obtain r where r: "getPost social 1 (Some 2) = Some r"
    by (simp add: getPost_def social_eq Map_get_def postHello_def)
  obtain r1 where r1: "getPost social 1 (Some 1) = Some r1"
    by (simp add: getPost_def social_eq Map_get_def postHello_def)
  obtain r0 where r0: "getPost social 1 None = Some r0"
    by (simp add: getPost_def social_eq Map_get_def postHello_def)
  from enriched_counts_and_bookmark_flag [of social 1 "Some 2", THEN conjunct1, rule_format, of r]
    g(1) r
  have t: "post_id (pwa_post r) = 1"
    "pwa_likeCount r = length (filter (\<lambda>l. like_postId l = Num 1) (Map_values (likes social)))"
    "pwa_commentCount r =
       length (filter (\<lambda>c. comment_postId c = 1) (Map_values (comments social)))"
    "distinct (map fst (likes social)) \<longrightarrow>
       pwa_likeCount r =
         card {k. \<exists>l. Map_get (likes social) k = Some l \<and> like_postId l = Num 1}"
    "Some (2::int) \<noteq> Some 0 \<longrightarrow> (pwa_isBookmarked r \<longleftrightarrow>
        (\<exists>u. Some (2::int) = Some u \<and>
           (\<exists>b\<in>set (Map_values (bookmarks social)).
               bookmark_userId b = u \<and> bookmark_postId b = Num 1)))"
    by blast+
  from enriched_counts_and_bookmark_flag [of social 1 "Some 1", THEN conjunct1, rule_format, of r1]
    g(1) r1
  have t1: "Some (1::int) \<noteq> Some 0 \<longrightarrow> (pwa_isBookmarked r1 \<longleftrightarrow>
        (\<exists>u. Some (1::int) = Some u \<and>
           (\<exists>b\<in>set (Map_values (bookmarks social)).
               bookmark_userId b = u \<and> bookmark_postId b = Num 1)))"
    by blast
  from enriched_counts_and_bookmark_flag [of social 1 None, THEN conjunct1, rule_format, of r0]
    g(1) r0
  have t0: "(None :: int option) \<noteq> Some 0 \<longrightarrow> (pwa_isBookmarked r0 \<longleftrightarrow>
        (\<exists>u. (None :: int option) = Some u \<and>
           (\<exists>b\<in>set (Map_values (bookmarks social)).
               bookmark_userId b = u \<and> bookmark_postId b = Num 1)))"
    by blast
  have bm: "pwa_isBookmarked r" "\<not> pwa_isBookmarked r1" "\<not> pwa_isBookmarked r0"
    using t(5) t1 t0 nz ev(3,4,5) by blast+
  have 1: "map_option (post_id \<circ> pwa_post) (getPost social 1 (Some 2)) = Some 1"
    "map_option pwa_likeCount (getPost social 1 (Some 2)) = Some 1"
    "map_option pwa_commentCount (getPost social 1 (Some 2)) = Some 1"
    "map_option pwa_isBookmarked (getPost social 1 (Some 2)) = Some True"
    "map_option pwa_isBookmarked (getPost social 1 (Some 1)) = Some False"
    "map_option pwa_isBookmarked (getPost social 1 None) = Some False"
    using t(1,2,3) ev(1,2) bm by (simp_all add: r r1 r0)
  have 2: "card {k. \<exists>l. Map_get (likes social) k = Some l \<and> like_postId l = Num 1} = 1"
    using t(2,4) g(2) ev(1) by simp
  have "map (post_id \<circ> pwa_post) (getPosts social None None (Some 2)) = [1]"
    by (simp add: social_eq Map_values_def getPosts_def sortNewestFirst_def slice_def
      orDefault_def Let_def postHello_def postDraft_def)
  then obtain r2 where r2: "getPosts social None None (Some 2) = [r2]"
    and p2: "post_id (pwa_post r2) = 1"
    by (auto simp: map_eq_Cons_conv)
  have "\<forall>r\<in>set (getPosts social None None (Some 2)).
      pwa_likeCount r =
        length (filter (\<lambda>l. like_postId l = Num (post_id (pwa_post r)))
                  (Map_values (likes social))) \<and>
      (Some (2::int) \<noteq> Some 0 \<longrightarrow>
         (pwa_isBookmarked r \<longleftrightarrow>
           (\<exists>u. Some (2::int) = Some u \<and>
              (\<exists>b\<in>set (Map_values (bookmarks social)).
                  bookmark_userId b = u \<and> bookmark_postId b = Num (post_id (pwa_post r))))))"
    using enriched_counts_and_bookmark_flag [of social 1 "Some 2" None None] by blast
  then have "pwa_likeCount r2 =
        length (filter (\<lambda>l. like_postId l = Num 1) (Map_values (likes social)))"
    and "pwa_isBookmarked r2 \<longleftrightarrow>
           (\<exists>u. Some (2::int) = Some u \<and>
              (\<exists>b\<in>set (Map_values (bookmarks social)).
                  bookmark_userId b = u \<and> bookmark_postId b = Num 1))"
    unfolding r2 using p2 by simp_all
  then have 3: "map pwa_likeCount (getPosts social None None (Some 2)) = [1]"
    "map pwa_isBookmarked (getPosts social None None (Some 2)) = [True]"
    unfolding r2 using ev(1,3) by simp_all
  show ?thesis using g 1 2 3 by blast
qed

subsection \<open>Listing posts\<close>

lemma includes_str_sublist: "includes_str str q = sublist q str"
  by (induction str) (auto simp: sublist_Cons_right)

lemma sublist_map_iff:
  "sublist (map f q) (map f str) \<longleftrightarrow>
     (\<exists>ps mid ss. str = ps @ mid @ ss \<and> map f mid = map f q)"
proof
  assume "sublist (map f q) (map f str)"
  then obtain ps' ss' where "map f str = ps' @ (map f q @ ss')"
    by (auto simp: sublist_def)
  then obtain ps rest where 1: "str = ps @ rest" and 2: "map f q @ ss' = map f rest"
    using map_eq_append_conv [of f str ps' "map f q @ ss'"] by blast
  then obtain mid ss where "rest = mid @ ss" and "map f mid = map f q"
    using append_eq_map_conv [of "map f q" ss' f rest] by metis
  with 1 show "\<exists>ps mid ss. str = ps @ mid @ ss \<and> map f mid = map f q"
    by blast
next
  assume "\<exists>ps mid ss. str = ps @ mid @ ss \<and> map f mid = map f q"
  then obtain ps mid ss where "str = ps @ mid @ ss" and "map f mid = map f q"
    by blast
  then have "map f str = map f ps @ map f q @ map f ss"
    by simp
  then show "sublist (map f q) (map f str)"
    unfolding sublist_def by blast
qed

lemma newestFirst_sortNewestFirst: "newestFirst (sortNewestFirst post_createdAt ps)"
  unfolding newestFirst_def by (rule sorted_wrt_sortNewestFirst)

lemma newestFirst_slice: "newestFirst ps \<Longrightarrow> newestFirst (slice ps a b)"
  by (simp add: newestFirst_def slice_def Let_def sorted_wrt_take sorted_wrt_drop)

lemma slice_nonneg:
  "0 \<le> start \<Longrightarrow> 0 \<le> n \<Longrightarrow> slice xs start (start + n) = take (nat n) (drop (nat start) xs)"
proof -
  assume a: "0 \<le> start" "0 \<le> n"
  let ?len = "int (length xs)"
  have "take (nat (min (start + n) ?len - min start ?len)) (drop (nat (min start ?len)) xs) =
        take (nat n) (drop (nat start) xs)"
  proof (cases "start \<le> ?len")
    case True
    then have 1: "min start ?len = start" by simp
    have "take (nat (min (start + n) ?len - start)) (drop (nat start) xs) =
          take (nat n) (drop (nat start) xs)"
    proof (cases "start + n \<le> ?len")
      case True
      then show ?thesis by simp
    next
      case False
      then have "min (start + n) ?len = ?len" by simp
      moreover have "length (drop (nat start) xs) = nat (?len - start)"
        using a by simp
      moreover have "nat (?len - start) \<le> nat n" using False by simp
      ultimately show ?thesis by simp
    qed
    with 1 show ?thesis by simp
  next
    case False
    then have "length xs \<le> nat start" by simp
    moreover have "nat (min start ?len) = length xs" using False by simp
    ultimately show ?thesis by simp
  qed
  then show ?thesis using a by (simp add: slice_def Let_def)
qed

lemma searchMatches_iff:
  "searchMatches (toLowerCase query) p \<longleftrightarrow>
     post_published p \<and>
     (sublist (toLowerCase query) (toLowerCase (post_title p)) \<or>
      sublist (toLowerCase query) (toLowerCase (post_content p)) \<or>
      (\<exists>ts. post_tags p = Some ts \<and>
         (\<exists>tag\<in>set ts. sublist (toLowerCase query) (toLowerCase tag))))"
  by (auto simp: searchMatches_def includes_str_sublist list_ex_iff split: option.splits)

lemma searchPosts_posts:
  "map pwa_post (searchPosts s query viewer) =
     sortNewestFirst post_createdAt
       (filter (searchMatches (toLowerCase query)) (Map_values (posts s)))"
  by (simp add: searchPosts_def Let_def)

lemma getPostsByTag_posts:
  "map pwa_post (getPostsByTag s tag viewer) =
     sortNewestFirst post_createdAt
       (filter (\<lambda>p. post_published p \<and> (\<exists>ts. post_tags p = Some ts \<and> tag \<in> set ts))
          (Map_values (posts s)))"
proof -
  have e: "(\<lambda>p. post_published p \<and> (case post_tags p of None \<Rightarrow> False | Some ts \<Rightarrow> tag \<in> set ts)) =
        (\<lambda>p. post_published p \<and> (\<exists>ts. post_tags p = Some ts \<and> tag \<in> set ts))"
    by (auto simp: fun_eq_iff split: option.splits)
  show ?thesis
    unfolding getPostsByTag_def Let_def e by simp
qed

lemma getPostsByAuthor_posts:
  "map pwa_post (getPostsByAuthor s authorId viewer) =
     sortNewestFirst post_createdAt
       (filter (\<lambda>p. post_authorId p = authorId \<and> post_published p) (Map_values (posts s)))"
  by (simp add: getPostsByAuthor_def Let_def)

lemma list_all_sortNewestFirst_filter:
  "(\<And>p. P p \<Longrightarrow> Q p) \<Longrightarrow> list_all Q (sortNewestFirst f (filter P xs))"
  by (simp add: list_all_iff)

lemma toLowerCase_examples:
  "toLowerCase ''Hello, World'' = ''hello, world''"
  "toLowerCase (''CAF'' @ [CHR 0xC9]) = ''caf'' @ [CHR 0xE9]"
  "toLowerCase [CHR 0xC0, CHR 0xD6, CHR 0xD7, CHR 0xD8, CHR 0xDE, CHR 0xDF, CHR 0xFF] =
     [CHR 0xE0, CHR 0xF6, CHR 0xD7, CHR 0xF8, CHR 0xFE, CHR 0xDF, CHR 0xFF]"
  by (simp_all add: toLowerCase_def lowerChar_def isUpperUnit_def)

lemma fivePosts_listings:
  "map pwa_post (searchPosts fivePosts ''wOr'' (Some 2)) = [postNews, postOther, postHello]"
  "map pwa_post (searchPosts fivePosts (''caf'' @ [CHR 0xE9]) (Some 2)) = [postCafe]"
  "map pwa_post (searchPosts fivePosts ''xyz'' (Some 2)) = []"
  "map pwa_post (getPostsByTag fivePosts ''intro'' (Some 2)) = [postNews, postHello]"
  "map pwa_post (getPostsByTag fivePosts ''Intro'' (Some 2)) = []"
  "map pwa_post (getPostsByAuthor fivePosts 2 (Some 2)) = [postCafe, postOther]"
  "sortNewestFirst post_createdAt (filter post_published (Map_values (posts fivePosts))) =
     [postCafe, postNews, postOther, postHello]"
  by (simp_all add: searchPosts_def getPostsByTag_def getPostsByAuthor_def fivePosts_eq
      Map_values_def searchMatches_def toLowerCase_def lowerChar_def isUpperUnit_def
      sortNewestFirst_def Let_def postHello_def postDraft_def postNews_def postOther_def
      postCafe_def comp_def)

text \<open>
  Claim C2. The four post listings return published posts only, newest first. The
  search returns every published post whose lower-cased title or content, or one of
  whose lower-cased tags, contains the lower-cased query as a contiguous run of
  characters (by \<open>sublist_map_iff\<close>, a run of the original text that equals the query
  up to the case of its letters, accented letters included); the tag listing returns every published post that
  has the tag itself among its tags; the author listing returns every published post
  of the author. These three take no limit and no offset and return all matches, each
  as often as it is stored. The feed returns the slice of the published posts, newest first, from the
  offset to the offset plus the limit, which for an offset and a limit that are not
  negative is the posts after the first offset ones, at most limit of them.
\<close>

theorem post_listings_published_newest_first:
  "(newestFirst (map pwa_post (searchPosts s query viewer)) \<and>
    list_all post_published (map pwa_post (searchPosts s query viewer)) \<and>
    mset (map pwa_post (searchPosts s query viewer)) =
      mset (filter (\<lambda>p. post_published p \<and>
                (sublist (toLowerCase query) (toLowerCase (post_title p)) \<or>
                 sublist (toLowerCase query) (toLowerCase (post_content p)) \<or>
                 (\<exists>ts. post_tags p = Some ts \<and>
                    (\<exists>tag\<in>set ts. sublist (toLowerCase query) (toLowerCase tag)))))
              (Map_values (posts s)))) \<and>
   (newestFirst (map pwa_post (getPostsByTag s tag viewer)) \<and>
    list_all post_published (map pwa_post (getPostsByTag s tag viewer)) \<and>
    mset (map pwa_post (getPostsByTag s tag viewer)) =
      mset (filter (\<lambda>p. post_published p \<and> (\<exists>ts. post_tags p = Some ts \<and> tag \<in> set ts))
              (Map_values (posts s)))) \<and>
   (newestFirst (map pwa_post (getPostsByAuthor s authorId viewer)) \<and>
    list_all post_published (map pwa_post (getPostsByAuthor s authorId viewer)) \<and>
    mset (map pwa_post (getPostsByAuthor s authorId viewer)) =
      mset (filter (\<lambda>p. post_authorId p = authorId \<and> post_published p)
              (Map_values (posts s)))) \<and>
   (newestFirst (map pwa_post (getPosts s limit offset viewer)) \<and>
    list_all post_published (map pwa_post (getPosts s limit offset viewer)) \<and>
    map pwa_post (getPosts s limit offset viewer) =
      slice (sortNewestFirst post_createdAt (filter post_published (Map_values (posts s))))
        (orDefault 0 offset) (orDefault 0 offset + orDefault 10 limit) \<and>
    (0 \<le> orDefault 0 offset \<and> 0 \<le> orDefault 10 limit \<longrightarrow>
       map pwa_post (getPosts s limit offset viewer) =
         take (nat (orDefault 10 limit))
           (drop (nat (orDefault 0 offset))
              (sortNewestFirst post_createdAt
                 (filter post_published (Map_values (posts s)))))))"
proof (intro conjI impI)
  show "newestFirst (map pwa_post (searchPosts s query viewer))"
    unfolding searchPosts_posts by (rule newestFirst_sortNewestFirst)
  show "list_all post_published (map pwa_post (searchPosts s query viewer))"
    unfolding searchPosts_posts
    by (rule list_all_sortNewestFirst_filter) (simp add: searchMatches_def)
  have "searchMatches (toLowerCase query) = (\<lambda>p. post_published p \<and>
                (sublist (toLowerCase query) (toLowerCase (post_title p)) \<or>
                 sublist (toLowerCase query) (toLowerCase (post_content p)) \<or>
                 (\<exists>ts. post_tags p = Some ts \<and>
                    (\<exists>tag\<in>set ts. sublist (toLowerCase query) (toLowerCase tag)))))"
    by (rule ext) (rule searchMatches_iff)
  then show "mset (map pwa_post (searchPosts s query viewer)) =
      mset (filter (\<lambda>p. post_published p \<and>
                (sublist (toLowerCase query) (toLowerCase (post_title p)) \<or>
                 sublist (toLowerCase query) (toLowerCase (post_content p)) \<or>
                 (\<exists>ts. post_tags p = Some ts \<and>
                    (\<exists>tag\<in>set ts. sublist (toLowerCase query) (toLowerCase tag)))))
              (Map_values (posts s)))"
    unfolding searchPosts_posts by simp
next
  show "newestFirst (map pwa_post (getPostsByTag s tag viewer))"
    unfolding getPostsByTag_posts by (rule newestFirst_sortNewestFirst)
  show "list_all post_published (map pwa_post (getPostsByTag s tag viewer))"
    unfolding getPostsByTag_posts by (rule list_all_sortNewestFirst_filter) simp
  show "mset (map pwa_post (getPostsByTag s tag viewer)) =
      mset (filter (\<lambda>p. post_published p \<and> (\<exists>ts. post_tags p = Some ts \<and> tag \<in> set ts))
              (Map_values (posts s)))"
    unfolding getPostsByTag_posts by simp
next
  show "newestFirst (map pwa_post (getPostsByAuthor s authorId viewer))"
    unfolding getPostsByAuthor_posts by (rule newestFirst_sortNewestFirst)
  show "list_all post_published (map pwa_post (getPostsByAuthor s authorId viewer))"
    unfolding getPostsByAuthor_posts by (rule list_all_sortNewestFirst_filter) simp
  show "mset (map pwa_post (getPostsByAuthor s authorId viewer)) =
      mset (filter (\<lambda>p. post_authorId p = authorId \<and> post_published p)
              (Map_values (posts s)))"
    unfolding getPostsByAuthor_posts by simp
next
  show "newestFirst (map pwa_post (getPosts s limit offset viewer))"
    unfolding getPosts_posts by (intro newestFirst_slice newestFirst_sortNewestFirst)
  have "set (slice (sortNewestFirst post_createdAt
                (filter post_published (Map_values (posts s))))
          (orDefault 0 offset) (orDefault 0 offset + orDefault 10 limit))
        \<subseteq> set (sortNewestFirst post_createdAt (filter post_published (Map_values (posts s))))"
    by (rule set_slice_subset)
  then show "list_all post_published (map pwa_post (getPosts s limit offset viewer))"
    unfolding getPosts_posts by (auto simp: list_all_iff)
  show "map pwa_post (getPosts s limit offset viewer) =
      slice (sortNewestFirst post_createdAt (filter post_published (Map_values (posts s))))
        (orDefault 0 offset) (orDefault 0 offset + orDefault 10 limit)"
    by (rule getPosts_posts)
  assume "0 \<le> orDefault 0 offset \<and> 0 \<le> orDefault 10 limit"
  then show "map pwa_post (getPosts s limit offset viewer) =
         take (nat (orDefault 10 limit))
           (drop (nat (orDefault 0 offset))
              (sortNewestFirst post_createdAt
                 (filter post_published (Map_values (posts s)))))"
    unfolding getPosts_posts by (simp add: slice_nonneg)
qed

theorem post_listings_published_newest_first_witness:
  "map pwa_post (searchPosts fivePosts ''wOr'' (Some 2)) = [postNews, postOther, postHello] \<and>
   newestFirst (map pwa_post (searchPosts fivePosts ''wOr'' (Some 2))) \<and>
   map pwa_post (searchPosts fivePosts (''caf'' @ [CHR 0xE9]) (Some 2)) = [postCafe] \<and>
   map pwa_post (searchPosts fivePosts ''xyz'' (Some 2)) = [] \<and>
   map pwa_post (getPostsByTag fivePosts ''intro'' (Some 2)) = [postNews, postHello] \<and>
   map pwa_post (getPostsByTag fivePosts ''Intro'' (Some 2)) = [] \<and>
   map pwa_post (getPostsByAuthor fivePosts 2 (Some 2)) = [postCafe, postOther] \<and>
   (0::int) \<le> orDefault 0 (Some 1) \<and> (0::int) \<le> orDefault 10 (Some 2) \<and>
   map pwa_post (getPosts fivePosts (Some 2) (Some 1) (Some 2)) = [postNews, postOther]"
proof -
  have h: "(0::int) \<le> orDefault 0 (Some 1) \<and> (0::int) \<le> orDefault 10 (Some 2)"
    by (simp add: orDefault_def)
  note t = post_listings_published_newest_first
             [of fivePosts "''wOr''" "Some 2" "''intro''" 2 "Some 2" "Some 1"]
  from t have a: "newestFirst (map pwa_post (searchPosts fivePosts ''wOr'' (Some 2)))"
    by blast
  from t h have "map pwa_post (getPosts fivePosts (Some 2) (Some 1) (Some 2)) =
         take (nat (orDefault 10 (Some 2)))
           (drop (nat (orDefault 0 (Some 1)))
              (sortNewestFirst post_createdAt
                 (filter post_published (Map_values (posts fivePosts)))))"
    by blast
  then have b: "map pwa_post (getPosts fivePosts (Some 2) (Some 1) (Some 2)) =
      [postNews, postOther]"
    unfolding fivePosts_listings(7) by (simp add: orDefault_def)
  show ?thesis using fivePosts_listings(1-6) h a b by blast
qed

subsection \<open>Conversations\<close>

lemma update_fresh_append:
  "k \<notin> fst ` set m \<Longrightarrow> AList.update k v m = m @ [(k, v)]"
  by (induction m) auto

lemma Map_has_iff: "Map_has m k \<longleftrightarrow> k \<in> fst ` set m"
  by (simp add: Map_has_def map_of_eq_None_iff)

lemma find_first_newest:
  fixes f :: "'a \<Rightarrow> int"
  assumes "sorted_wrt (\<lambda>a b. f b \<le> f a) xs" and "find P xs = Some m"
  shows "\<forall>x\<in>set xs. P x \<longrightarrow> f x \<le> f m"
  using assms
proof (induction xs)
  case Nil
  then show ?case by simp
next
  case (Cons a xs)
  show ?case
  proof (cases "P a")
    case True
    with Cons.prems(2) have "m = a" by simp
    with Cons.prems(1) show ?thesis by auto
  next
    case False
    with Cons.prems(2) have 1: "find P xs = Some m" by simp
    from Cons.prems(1) have 2: "sorted_wrt (\<lambda>a b. f b \<le> f a) xs" by simp
    from 2 1 have "\<forall>x\<in>set xs. P x \<longrightarrow> f x \<le> f m" by (rule Cons.IH)
    with False show ?thesis by simp
  qed
qed

lemma conversationLoop_inv:
  assumes "distinct (map fst cm)"
  shows "distinct (map fst (conversationLoop s u ms cm)) \<and>
         fst ` set (conversationLoop s u ms cm) = fst ` set cm \<union> otherParty u ` set ms \<and>
         (\<forall>e\<in>set (conversationLoop s u ms cm).
            e \<in> set cm \<or>
            (fst e \<notin> fst ` set cm \<and>
             find (\<lambda>x. otherParty u x = fst e) ms = Some (fst (snd e)) \<and>
             snd (snd e) = unreadFrom s u (fst e)))"
  using assms
proof (induction ms arbitrary: cm)
  case Nil
  then show ?case by simp
next
  case (Cons m ms)
  let ?o = "otherParty u m"
  show ?case
  proof (cases "?o \<in> fst ` set cm")
    case True
    then have step: "conversationLoop s u (m # ms) cm = conversationLoop s u ms cm"
      by (simp add: Map_has_iff Let_def)
    note ih = Cons.IH [OF Cons.prems]
    have "\<forall>e\<in>set (conversationLoop s u ms cm).
            e \<in> set cm \<or>
            (fst e \<notin> fst ` set cm \<and>
             find (\<lambda>x. otherParty u x = fst e) (m # ms) = Some (fst (snd e)) \<and>
             snd (snd e) = unreadFrom s u (fst e))"
    proof
      fix e assume "e \<in> set (conversationLoop s u ms cm)"
      with ih have "e \<in> set cm \<or>
            (fst e \<notin> fst ` set cm \<and>
             find (\<lambda>x. otherParty u x = fst e) ms = Some (fst (snd e)) \<and>
             snd (snd e) = unreadFrom s u (fst e))"
        by blast
      then consider "e \<in> set cm"
        | "fst e \<notin> fst ` set cm \<and>
             find (\<lambda>x. otherParty u x = fst e) ms = Some (fst (snd e)) \<and>
             snd (snd e) = unreadFrom s u (fst e)"
        by blast
      then show "e \<in> set cm \<or>
            (fst e \<notin> fst ` set cm \<and>
             find (\<lambda>x. otherParty u x = fst e) (m # ms) = Some (fst (snd e)) \<and>
             snd (snd e) = unreadFrom s u (fst e))"
      proof cases
        case 1
        then show ?thesis by simp
      next
        case 2
        with True have "otherParty u m \<noteq> fst e" by metis
        with 2 show ?thesis by simp
      qed
    qed
    moreover have "fst ` set (conversationLoop s u ms cm) =
        fst ` set cm \<union> otherParty u ` set (m # ms)"
      using ih True by auto
    ultimately show ?thesis
      unfolding step using ih by blast
  next
    case False
    let ?cm = "cm @ [(?o, m, unreadFrom s u ?o)]"
    have step: "conversationLoop s u (m # ms) cm = conversationLoop s u ms ?cm"
      using False by (simp add: Map_has_iff Let_def Map_set_def update_fresh_append)
    have d: "distinct (map fst ?cm)"
      using Cons.prems False by simp
    note ih = Cons.IH [OF d]
    have "\<forall>e\<in>set (conversationLoop s u ms ?cm).
            e \<in> set cm \<or>
            (fst e \<notin> fst ` set cm \<and>
             find (\<lambda>x. otherParty u x = fst e) (m # ms) = Some (fst (snd e)) \<and>
             snd (snd e) = unreadFrom s u (fst e))"
    proof
      fix e assume "e \<in> set (conversationLoop s u ms ?cm)"
      with ih have "e \<in> set ?cm \<or>
            (fst e \<notin> fst ` set ?cm \<and>
             find (\<lambda>x. otherParty u x = fst e) ms = Some (fst (snd e)) \<and>
             snd (snd e) = unreadFrom s u (fst e))"
        by blast
      then consider "e \<in> set cm" | "e = (?o, m, unreadFrom s u ?o)"
        | "fst e \<notin> fst ` set ?cm \<and>
             find (\<lambda>x. otherParty u x = fst e) ms = Some (fst (snd e)) \<and>
             snd (snd e) = unreadFrom s u (fst e)"
        by auto
      then show "e \<in> set cm \<or>
            (fst e \<notin> fst ` set cm \<and>
             find (\<lambda>x. otherParty u x = fst e) (m # ms) = Some (fst (snd e)) \<and>
             snd (snd e) = unreadFrom s u (fst e))"
      proof cases
        case 1
        then show ?thesis by simp
      next
        case 2
        then show ?thesis using False by simp
      next
        case 3
        then have "fst e \<noteq> ?o" and "fst e \<notin> fst ` set cm" by auto
        with 3 show ?thesis by simp
      qed
    qed
    moreover have "fst ` set (conversationLoop s u ms ?cm) =
        fst ` set cm \<union> otherParty u ` set (m # ms)"
      using ih by auto
    ultimately show ?thesis
      unfolding step using ih by blast
  qed
qed

lemma users_wf_getUser:
  assumes "users_wf s" and "getUser s k = Some usr"
  shows "user_id usr = k"
proof -
  from assms(2) have "(k, usr) \<in> set (users s)"
    by (auto simp: getUser_def Map_get_def dest: map_of_SomeD)
  with assms(1) show ?thesis
    by (auto simp: users_wf_def list_all_iff)
qed

lemma pushConversations_triples:
  assumes "users_wf s"
  shows "map convTriple (pushConversations s es) =
           filter (\<lambda>e. getUser s (fst e) \<noteq> None) es"
proof (induction es)
  case Nil
  then show ?case by simp
next
  case (Cons e es)
  obtain k m n where e: "e = (k, m, n)" by (cases e)
  show ?case
  proof (cases "getUser s k")
    case None
    with Cons e show ?thesis by simp
  next
    case (Some usr)
    with assms have "user_id usr = k" by (rule users_wf_getUser)
    with Cons e Some show ?thesis by (simp add: convTriple_def)
  qed
qed


lemma getConversations_unfold:
  "getConversations s u =
     sortNewestFirst (\<lambda>c. message_createdAt (conv_lastMessage c))
       (pushConversations s
          (conversationLoop s u
             (sortNewestFirst message_createdAt
                (filter (\<lambda>m. message_senderId m = u \<or> message_receiverId m = u)
                   (Map_values (messages s))))
             []))"
  by (simp add: getConversations_def Let_def Map_entries_def)

lemma inbox_conversations:
  "map convTriple (getConversations inbox 2) =
     [(1, msg 5 1 2 ''three'' False 8000, 3), (3, msg 2 3 2 ''hello'' False 6500, 1)]"
  by (simp add: inbox_eq Map_values_def Map_entries_def msg_def otherParty_def
      getUser_def Map_get_def getConversations_def sortNewestFirst_def Let_def Map_has_def
      Map_set_def unreadFrom_def convTriple_def userAlice_def userBob_def userCarol_def)
text \<open>
  Claim C3, as amended. In a store whose users are filed under their own ids,
  \<open>getConversations\<close> of a user has exactly one entry for each other party of the
  messages involving the user whose id resolves to a stored user, and none for a party
  whose id resolves to no user. Each entry carries a message exchanged with that party
  that no other message exchanged with it is newer than, and an unread count equal to
  the number of unread messages from that party to the user. The list is sorted by the
  creation time of the last messages, newest first.
\<close>

theorem getConversations_per_resolving_party:
  assumes "users_wf s"
  shows "distinct (map (\<lambda>c. author_id (conv_participant c)) (getConversations s userId)) \<and>
    set (map (\<lambda>c. author_id (conv_participant c)) (getConversations s userId)) =
      {otherParty userId m | m.
         m \<in> set (Map_values (messages s)) \<and>
         (message_senderId m = userId \<or> message_receiverId m = userId) \<and>
         getUser s (otherParty userId m) \<noteq> None} \<and>
    (\<forall>c\<in>set (getConversations s userId).
       conv_lastMessage c \<in> set (Map_values (messages s)) \<and>
       (message_senderId (conv_lastMessage c) = userId \<or>
        message_receiverId (conv_lastMessage c) = userId) \<and>
       otherParty userId (conv_lastMessage c) = author_id (conv_participant c) \<and>
       (\<forall>m\<in>set (Map_values (messages s)).
          (message_senderId m = userId \<or> message_receiverId m = userId) \<and>
          otherParty userId m = author_id (conv_participant c) \<longrightarrow>
          message_createdAt m \<le> message_createdAt (conv_lastMessage c)) \<and>
       conv_unreadCount c =
         length (filter (\<lambda>m. message_senderId m = author_id (conv_participant c) \<and>
                              message_receiverId m = userId \<and> \<not> message_isRead m)
                   (Map_values (messages s)))) \<and>
    sorted_wrt (\<lambda>a b. message_createdAt (conv_lastMessage b)
                        \<le> message_createdAt (conv_lastMessage a))
      (getConversations s userId)"
proof -
  let ?inv = "\<lambda>m. message_senderId m = userId \<or> message_receiverId m = userId"
  define ms where "ms = sortNewestFirst message_createdAt (filter ?inv (Map_values (messages s)))"
  define cm where "cm = conversationLoop s userId ms []"
  define pushed where "pushed = pushConversations s cm"
  let ?pid = "\<lambda>c. author_id (conv_participant c)"
  have cs: "getConversations s userId =
      sortNewestFirst (\<lambda>c. message_createdAt (conv_lastMessage c)) pushed"
    by (simp add: getConversations_unfold pushed_def cm_def ms_def)
  have set_ms: "set ms = {m \<in> set (Map_values (messages s)). ?inv m}"
    by (simp add: ms_def)
  have sorted_ms: "sorted_wrt (\<lambda>a b. message_createdAt b \<le> message_createdAt a) ms"
    unfolding ms_def by (rule sorted_wrt_sortNewestFirst)
  have inv: "distinct (map fst cm)"
    "fst ` set cm = otherParty userId ` set ms"
    "\<forall>e\<in>set cm. find (\<lambda>x. otherParty userId x = fst e) ms = Some (fst (snd e)) \<and>
                  snd (snd e) = unreadFrom s userId (fst e)"
    using conversationLoop_inv [of "[]" s userId ms] by (simp_all add: cm_def)
  have tri: "map convTriple pushed = filter (\<lambda>e. getUser s (fst e) \<noteq> None) cm"
    unfolding pushed_def using assms by (rule pushConversations_triples)
  have pid: "map ?pid pushed = map fst (filter (\<lambda>e. getUser s (fst e) \<noteq> None) cm)"
  proof -
    have "map ?pid pushed = map fst (map convTriple pushed)"
      by (simp add: convTriple_def comp_def)
    then show ?thesis by (simp only: tri)
  qed
  have set_cs: "set (getConversations s userId) = set pushed"
    by (simp add: cs)
  have d_pushed: "distinct (map ?pid pushed)"
    unfolding pid using inv(1) by (rule distinct_map_filter)
  have "mset (map ?pid (getConversations s userId)) = mset (map ?pid pushed)"
    by (simp add: cs sortNewestFirst_def)
  then have A: "distinct (map ?pid (getConversations s userId))"
    using d_pushed mset_eq_imp_distinct_iff by blast
  have "set (map ?pid (getConversations s userId)) = set (map ?pid pushed)"
    by (simp add: set_cs)
  also have "\<dots> = {k \<in> fst ` set cm. getUser s k \<noteq> None}"
    unfolding pid by auto
  also have "\<dots> = {otherParty userId m | m.
         m \<in> set (Map_values (messages s)) \<and> ?inv m \<and>
         getUser s (otherParty userId m) \<noteq> None}"
    unfolding inv(2) set_ms by auto
  finally have B: "set (map ?pid (getConversations s userId)) =
      {otherParty userId m | m.
         m \<in> set (Map_values (messages s)) \<and> ?inv m \<and>
         getUser s (otherParty userId m) \<noteq> None}" .
  have C: "conv_lastMessage c \<in> set (Map_values (messages s)) \<and>
       ?inv (conv_lastMessage c) \<and>
       otherParty userId (conv_lastMessage c) = ?pid c \<and>
       (\<forall>m\<in>set (Map_values (messages s)).
          ?inv m \<and> otherParty userId m = ?pid c \<longrightarrow>
          message_createdAt m \<le> message_createdAt (conv_lastMessage c)) \<and>
       conv_unreadCount c =
         length (filter (\<lambda>m. message_senderId m = ?pid c \<and>
                              message_receiverId m = userId \<and> \<not> message_isRead m)
                   (Map_values (messages s)))"
    if c: "c \<in> set (getConversations s userId)" for c
  proof -
    from c have "convTriple c \<in> set (map convTriple pushed)"
      by (simp add: set_cs)
    then have mem: "convTriple c \<in> set cm"
      unfolding tri by simp
    with inv(3) have f: "find (\<lambda>x. otherParty userId x = ?pid c) ms = Some (conv_lastMessage c)"
      and n: "conv_unreadCount c = unreadFrom s userId (?pid c)"
      by (auto simp: convTriple_def)
    from find_Some_mem [OF f] have l: "conv_lastMessage c \<in> set ms"
      "otherParty userId (conv_lastMessage c) = ?pid c"
      by simp_all
    from find_first_newest [OF sorted_ms f]
    have newest: "\<forall>x\<in>set ms. otherParty userId x = ?pid c \<longrightarrow>
       message_createdAt x \<le> message_createdAt (conv_lastMessage c)" .
    show ?thesis
      using l newest n by (auto simp: set_ms unreadFrom_def)
  qed
  have D: "sorted_wrt (\<lambda>a b. message_createdAt (conv_lastMessage b)
                        \<le> message_createdAt (conv_lastMessage a))
      (getConversations s userId)"
    unfolding cs by (rule sorted_wrt_sortNewestFirst)
  from A B C D show ?thesis by blast
qed

theorem getConversations_per_resolving_party_witness:
  "users_wf inbox \<and>
   map convTriple (getConversations inbox 2) =
     [(1, msg 5 1 2 ''three'' False 8000, 3), (3, msg 2 3 2 ''hello'' False 6500, 1)] \<and>
   distinct (map (\<lambda>c. author_id (conv_participant c)) (getConversations inbox 2)) \<and>
   sorted_wrt (\<lambda>a b. message_createdAt (conv_lastMessage b)
                       \<le> message_createdAt (conv_lastMessage a))
     (getConversations inbox 2)"
proof -
  have w: "users_wf inbox"
    by (simp add: inbox_eq users_wf_def userAlice_def userBob_def userCarol_def)
  from getConversations_per_resolving_party [OF w, of 2]
  have "distinct (map (\<lambda>c. author_id (conv_participant c)) (getConversations inbox 2))"
    and "sorted_wrt (\<lambda>a b. message_createdAt (conv_lastMessage b)
                       \<le> message_createdAt (conv_lastMessage a))
     (getConversations inbox 2)"
    by blast+
  with w inbox_conversations show ?thesis by blast
qed

text \<open>
  The claim as stated, with an entry for every other party, fails for a party that is
  no stored user: Alice has sent a message to the id 99, which resolves to no user, and
  her list of conversations is empty.
\<close>

theorem getConversations_ghost_counterexample:
  "Map_values (messages ghostMessage) = [msg 1 1 99 ''anyone?'' False 9000] \<and>
   message_senderId (msg 1 1 99 ''anyone?'' False 9000) = 1 \<and>
   otherParty 1 (msg 1 1 99 ''anyone?'' False 9000) = 99 \<and>
   getUser ghostMessage 1 = Some userAlice \<and>
   getUser ghostMessage 99 = None \<and>
   getConversations ghostMessage 1 = []"
  by (simp add: ghostMessage_eq Map_values_def Map_entries_def msg_def otherParty_def
      getUser_def Map_get_def getConversations_def sortNewestFirst_def Let_def Map_has_def
      Map_set_def unreadFrom_def)


subsection \<open>Marking messages as read\<close>

lemma update_append_notin:
  "k \<notin> fst ` set pre \<Longrightarrow> AList.update k w (pre @ (k, v) # m) = pre @ (k, w) # m"
  by (induction pre) auto

lemma foldl_update_filter:
  assumes "distinct (map fst m)" and "fst ` set pre \<inter> fst ` set m = {}"
  shows "foldl (\<lambda>ms (i, x). AList.update i (g x) ms) (pre @ m) (filter Q m) =
           pre @ map (\<lambda>(k, v). (k, if Q (k, v) then g v else v)) m"
  using assms
proof (induction m arbitrary: pre)
  case Nil
  then show ?case by simp
next
  case (Cons a m)
  obtain k v where a: "a = (k, v)" by (cases a)
  have k: "k \<notin> fst ` set pre" "k \<notin> fst ` set m"
    using Cons.prems a by auto
  have d: "distinct (map fst m)" using Cons.prems by simp
  show ?case
  proof (cases "Q (k, v)")
    case True
    have disj: "fst ` set (pre @ [(k, g v)]) \<inter> fst ` set m = {}"
      using Cons.prems(2) k a by auto
    have "foldl (\<lambda>ms (i, x). AList.update i (g x) ms) (pre @ a # m) (filter Q (a # m)) =
          foldl (\<lambda>ms (i, x). AList.update i (g x) ms) ((pre @ [(k, g v)]) @ m) (filter Q m)"
      using True a k(1) by (simp add: update_append_notin)
    also have "\<dots> = (pre @ [(k, g v)]) @ map (\<lambda>(k, v). (k, if Q (k, v) then g v else v)) m"
      using d disj by (rule Cons.IH)
    finally show ?thesis using True a by simp
  next
    case False
    have disj: "fst ` set (pre @ [(k, v)]) \<inter> fst ` set m = {}"
      using Cons.prems(2) k a by auto
    have "foldl (\<lambda>ms (i, x). AList.update i (g x) ms) (pre @ a # m) (filter Q (a # m)) =
          foldl (\<lambda>ms (i, x). AList.update i (g x) ms) ((pre @ [(k, v)]) @ m) (filter Q m)"
      using False a by simp
    also have "\<dots> = (pre @ [(k, v)]) @ map (\<lambda>(k, v). (k, if Q (k, v) then g v else v)) m"
      using d disj by (rule Cons.IH)
    finally show ?thesis using False a by simp
  qed
qed

lemma markMessagesAsRead_messages:
  assumes "distinct (map fst (messages s))"
  shows "messages (snd (markMessagesAsRead s userId otherUserId)) =
     map (\<lambda>(k, m). (k, if message_senderId m = otherUserId \<and> message_receiverId m = userId \<and>
                           \<not> message_isRead m
                        then m\<lparr>message_isRead := True\<rparr> else m))
       (messages s)"
proof -
  let ?Q = "\<lambda>(_, m). message_senderId m = otherUserId \<and> message_receiverId m = userId \<and>
                              \<not> message_isRead m"
  have "foldl (\<lambda>ms (i, x). AList.update i (x\<lparr>message_isRead := True\<rparr>) ms) ([] @ messages s)
          (filter ?Q (messages s)) =
        [] @ map (\<lambda>(k, v). (k, if ?Q (k, v) then v\<lparr>message_isRead := True\<rparr> else v))
          (messages s)"
    using assms by (intro foldl_update_filter) simp_all
  then show ?thesis
    by (simp add: markMessagesAsRead_def Let_def Map_set_def Map_entries_def)
qed

lemma markMessagesAsRead_keys:
  assumes "distinct (map fst (messages s))"
  shows "map fst (messages (snd (markMessagesAsRead s userId otherUserId))) =
           map fst (messages s)"
  unfolding markMessagesAsRead_messages [OF assms]
  by (simp add: case_prod_unfold comp_def)

lemma markMessagesAsRead_frame:
  "users (snd (markMessagesAsRead s u other)) = users s \<and>
   posts (snd (markMessagesAsRead s u other)) = posts s \<and>
   likes (snd (markMessagesAsRead s u other)) = likes s \<and>
   comments (snd (markMessagesAsRead s u other)) = comments s \<and>
   bookmarks (snd (markMessagesAsRead s u other)) = bookmarks s \<and>
   follows (snd (markMessagesAsRead s u other)) = follows s \<and>
   currentId (snd (markMessagesAsRead s u other)) = currentId s"
  by (simp add: markMessagesAsRead_def Let_def)

lemma markMessagesAsRead_result:
  "fst (markMessagesAsRead s userId otherUserId) =
     (\<exists>m\<in>set (Map_values (messages s)).
        message_senderId m = otherUserId \<and> message_receiverId m = userId \<and> \<not> message_isRead m)"
proof -
  have "(filter (\<lambda>(_, m). P m) xs \<noteq> []) = (\<exists>m\<in>set (map snd xs). P m)"
    for P :: "message \<Rightarrow> bool" and xs :: "(int \<times> message) list"
    by (induction xs) auto
  then show ?thesis
    by (simp add: markMessagesAsRead_def Let_def Map_entries_def Map_values_def)
qed

text \<open>
  Claim C4. \<open>markMessagesAsRead\<close> for a user and another party sets the read flag of every
  message from that party to the user that was unread, and leaves every other message,
  the order of the messages and every other map of the store as they were. It returns
  true exactly when there was such a message. Afterwards \<open>getUnreadMessageCount\<close> of the
  user counts the unread messages of other senders only, no unread message from the
  party is left, and the count is 0 when all unread messages of the user came from the
  party. (The keys of the message map are distinct, as the keys of a Map are.)
\<close>

theorem markMessagesAsRead_marks_exactly:
  assumes "distinct (map fst (messages s))"
  shows "\<exists>changed s'. markMessagesAsRead s userId otherUserId = (changed, s') \<and>
     messages s' =
       map (\<lambda>(k, m). (k, if message_senderId m = otherUserId \<and> message_receiverId m = userId \<and>
                             \<not> message_isRead m
                          then m\<lparr>message_isRead := True\<rparr> else m))
         (messages s) \<and>
     users s' = users s \<and> posts s' = posts s \<and> likes s' = likes s \<and>
     comments s' = comments s \<and> bookmarks s' = bookmarks s \<and> follows s' = follows s \<and>
     currentId s' = currentId s \<and>
     changed = (\<exists>m\<in>set (Map_values (messages s)).
        message_senderId m = otherUserId \<and> message_receiverId m = userId \<and>
        \<not> message_isRead m) \<and>
     getUnreadMessageCount s' userId =
       length (filter (\<lambda>m. message_receiverId m = userId \<and> \<not> message_isRead m \<and>
                            message_senderId m \<noteq> otherUserId)
                 (Map_values (messages s))) \<and>
     unreadFrom s' userId otherUserId = 0 \<and>
     ((\<forall>m\<in>set (Map_values (messages s)).
         message_receiverId m = userId \<and> \<not> message_isRead m \<longrightarrow>
         message_senderId m = otherUserId) \<longrightarrow>
      getUnreadMessageCount s' userId = 0)"
proof -
  define s' where "s' = snd (markMessagesAsRead s userId otherUserId)"
  define changed where "changed = fst (markMessagesAsRead s userId otherUserId)"
  let ?f = "\<lambda>m. if message_senderId m = otherUserId \<and> message_receiverId m = userId \<and>
                     \<not> message_isRead m
                  then m\<lparr>message_isRead := True\<rparr> else m"
  have 1: "markMessagesAsRead s userId otherUserId = (changed, s')"
    by (simp add: s'_def changed_def)
  have 2: "messages s' =
       map (\<lambda>(k, m). (k, if message_senderId m = otherUserId \<and> message_receiverId m = userId \<and>
                             \<not> message_isRead m
                          then m\<lparr>message_isRead := True\<rparr> else m))
         (messages s)"
    unfolding s'_def using assms by (rule markMessagesAsRead_messages)
  have 3: "users s' = users s \<and> posts s' = posts s \<and> likes s' = likes s \<and>
     comments s' = comments s \<and> bookmarks s' = bookmarks s \<and> follows s' = follows s \<and>
     currentId s' = currentId s"
    unfolding s'_def by (rule markMessagesAsRead_frame)
  have 4: "changed = (\<exists>m\<in>set (Map_values (messages s)).
        message_senderId m = otherUserId \<and> message_receiverId m = userId \<and>
        \<not> message_isRead m)"
    unfolding changed_def by (rule markMessagesAsRead_result)
  have vals: "Map_values (messages s') = map ?f (Map_values (messages s))"
    by (simp add: 2 Map_values_def case_prod_unfold)
  have 5: "getUnreadMessageCount s' userId =
       length (filter (\<lambda>m. message_receiverId m = userId \<and> \<not> message_isRead m \<and>
                            message_senderId m \<noteq> otherUserId)
                 (Map_values (messages s)))"
  proof -
    have e: "(\<lambda>m. message_receiverId m = userId \<and> \<not> message_isRead m) \<circ> ?f =
          (\<lambda>m. message_receiverId m = userId \<and> \<not> message_isRead m \<and>
                            message_senderId m \<noteq> otherUserId)"
      by (auto simp: fun_eq_iff)
    have "getUnreadMessageCount s' userId =
       length (filter ((\<lambda>m. message_receiverId m = userId \<and> \<not> message_isRead m) \<circ> ?f)
                 (Map_values (messages s)))"
      by (simp add: getUnreadMessageCount_def vals filter_map)
    then show ?thesis unfolding e .
  qed
  have 6: "unreadFrom s' userId otherUserId = 0"
  proof -
    have e: "(\<lambda>m. message_senderId m = otherUserId \<and> message_receiverId m = userId \<and>
               \<not> message_isRead m) \<circ> ?f = (\<lambda>m. False)"
      by (auto simp: fun_eq_iff)
    have "unreadFrom s' userId otherUserId =
       length (filter ((\<lambda>m. message_senderId m = otherUserId \<and> message_receiverId m = userId \<and>
               \<not> message_isRead m) \<circ> ?f) (Map_values (messages s)))"
      by (simp add: unreadFrom_def vals filter_map)
    then show ?thesis unfolding e by simp
  qed
  have 7: "(\<forall>m\<in>set (Map_values (messages s)).
         message_receiverId m = userId \<and> \<not> message_isRead m \<longrightarrow>
         message_senderId m = otherUserId) \<longrightarrow>
      getUnreadMessageCount s' userId = 0"
    unfolding 5 by (auto simp: filter_empty_conv)
  show ?thesis
    apply (rule exI [of _ changed])
    apply (rule exI [of _ s'])
    using 1 2 3 4 5 6 7 apply -
    apply (elim conjE)
    apply (intro conjI)
                 apply assumption+
    done
qed

theorem markMessagesAsRead_marks_exactly_witness:
  "distinct (map fst (messages inbox)) \<and>
   getUnreadMessageCount inbox 2 = 4 \<and>
   fst (markMessagesAsRead inbox 2 1) \<and>
   map (\<lambda>(k, m). (k, message_isRead m)) (messages (snd (markMessagesAsRead inbox 2 1))) =
     [(1, True), (2, False), (3, True), (4, False), (5, True)] \<and>
   getUnreadMessageCount (snd (markMessagesAsRead inbox 2 1)) 2 = 1 \<and>
   filter (\<lambda>m. message_receiverId m = 1 \<and> \<not> message_isRead m \<and> message_senderId m \<noteq> 2)
     (Map_values (messages inbox)) = [] \<and>
   getUnreadMessageCount inbox 1 = 1 \<and>
   getUnreadMessageCount (snd (markMessagesAsRead inbox 1 2)) 1 = 0"
proof -
  have d: "distinct (map fst (messages inbox))"
    by (simp add: inbox_eq)
  have g: "getUnreadMessageCount inbox 2 = 4" "getUnreadMessageCount inbox 1 = 1"
    "\<forall>m\<in>set (Map_values (messages inbox)).
      message_receiverId m = 1 \<and> \<not> message_isRead m \<longrightarrow> message_senderId m = 2"
    by (simp_all add: inbox_eq getUnreadMessageCount_def Map_values_def msg_def)
  from markMessagesAsRead_marks_exactly [OF d, of 2 1]
  obtain changed s' where a: "markMessagesAsRead inbox 2 1 = (changed, s')"
    and b: "messages s' =
       map (\<lambda>(k, m). (k, if message_senderId m = 1 \<and> message_receiverId m = 2 \<and>
                             \<not> message_isRead m
                          then m\<lparr>message_isRead := True\<rparr> else m))
         (messages inbox)"
    and c: "changed = (\<exists>m\<in>set (Map_values (messages inbox)).
        message_senderId m = 1 \<and> message_receiverId m = 2 \<and> \<not> message_isRead m)"
    and e: "getUnreadMessageCount s' 2 =
       length (filter (\<lambda>m. message_receiverId m = 2 \<and> \<not> message_isRead m \<and>
                            message_senderId m \<noteq> 1)
                 (Map_values (messages inbox)))"
    by blast
  have 1: "fst (markMessagesAsRead inbox 2 1)"
    unfolding a fst_conv c by (simp add: inbox_eq Map_values_def msg_def)
  have 2: "map (\<lambda>(k, m). (k, message_isRead m)) (messages (snd (markMessagesAsRead inbox 2 1))) =
     [(1, True), (2, False), (3, True), (4, False), (5, True)]"
    unfolding a snd_conv b by (simp add: inbox_eq msg_def)
  have 3: "getUnreadMessageCount (snd (markMessagesAsRead inbox 2 1)) 2 = 1"
    unfolding a snd_conv e by (simp add: inbox_eq Map_values_def msg_def)
  from markMessagesAsRead_marks_exactly [OF d, of 1 2]
  obtain changed2 s2 where a2: "markMessagesAsRead inbox 1 2 = (changed2, s2)"
    and z: "(\<forall>m\<in>set (Map_values (messages inbox)).
         message_receiverId m = 1 \<and> \<not> message_isRead m \<longrightarrow> message_senderId m = 2) \<longrightarrow>
      getUnreadMessageCount s2 1 = 0"
    by blast
  have 4: "getUnreadMessageCount (snd (markMessagesAsRead inbox 1 2)) 1 = 0"
    unfolding a2 snd_conv using z g(3) by blast
  have 5: "filter (\<lambda>m. message_receiverId m = 1 \<and> \<not> message_isRead m \<and> message_senderId m \<noteq> 2)
     (Map_values (messages inbox)) = []"
    by (simp add: inbox_eq Map_values_def msg_def)
  show ?thesis using d g(1,2) 1 2 3 4 5 by blast
qed

subsection \<open>Following: no self-follow, no duplicate\<close>

lemma set_update_subset: "set (AList.update k v m) \<subseteq> insert (k, v) (set m)"
  by (induction m) auto

lemma distinct_map_update:
  assumes "distinct (map h m)" and "h (k, v) \<notin> h ` set m"
  shows "distinct (map h (AList.update k v m))"
  using assms
proof (induction m)
  case Nil
  then show ?case by simp
next
  case (Cons a m)
  obtain k' v' where a: "a = (k', v')" by (cases a)
  show ?case
  proof (cases "k' = k")
    case True
    with Cons.prems a show ?thesis by simp
  next
    case False
    have "h a \<noteq> h (k, v)" using Cons.prems(2) by auto
    moreover have "h a \<notin> h ` set m" using Cons.prems(1) by simp
    ultimately have "h a \<notin> h ` set (AList.update k v m)"
      using set_update_subset [of k v m] by blast
    moreover have "distinct (map h (AList.update k v m))"
      using Cons.IH Cons.prems by simp
    ultimately show ?thesis using a False by simp
  qed
qed

lemma distinct_map_delete:
  "distinct (map h m) \<Longrightarrow> distinct (map h (AList.delete k m))"
  by (simp add: AList.delete_eq distinct_map_filter)

lemma distinct_map_count_le:
  "distinct (map g xs) \<Longrightarrow> length (filter (\<lambda>x. g x = c) xs) \<le> 1"
proof (induction xs)
  case Nil
  then show ?case by simp
next
  case (Cons a xs)
  show ?case
  proof (cases "g a = c")
    case True
    have "\<forall>x\<in>set xs. g x \<noteq> c"
      using Cons.prems True by (metis distinct.simps(2) image_eqI list.simps(9) set_map)
    then have "filter (\<lambda>x. g x = c) xs = []"
      by (simp add: filter_empty_conv)
    with True show ?thesis by simp
  next
    case False
    with Cons show ?thesis by simp
  qed
qed

lemma followsUnique_MemStorage: "followsUnique MemStorage"
  by (simp add: followsUnique_def MemStorage_def Map_values_def)

lemma followsUnique_count:
  assumes "followsUnique s"
  shows "followCountOf s followerId followingId \<le> 1"
proof -
  let ?g = "\<lambda>f. (follow_followerId f, follow_followingId f)"
  have "length (filter (\<lambda>f. ?g f = (followerId, followingId)) (Map_values (follows s))) \<le> 1"
    using assms unfolding followsUnique_def by (rule distinct_map_count_le)
  then show ?thesis by (simp add: followCountOf_def)
qed

lemma unfollowUser_followsUnique:
  assumes "followsUnique s"
  shows "followsUnique (snd (unfollowUser s followerId followingId))"
proof (cases "find (\<lambda>(_, f). follow_followerId f = followerId \<and>
                                   strictEq (follow_followingId f) followingId)
             (Map_entries (follows s))")
  case None
  then show ?thesis using assms by (simp add: unfollowUser_def)
next
  case (Some e)
  obtain k f where e: "e = (k, f)" by (cases e)
  have "followsUnique (s\<lparr>follows := AList.delete k (follows s)\<rparr>)"
    using assms distinct_map_delete [of "\<lambda>e. (follow_followerId (snd e), follow_followingId (snd e))" "follows s" k]
    by (simp add: followsUnique_def Map_values_def comp_def)
  then show ?thesis
    using Some e by (simp add: unfollowUser_def Map_delete_def)
qed

text \<open>
  When the followed id is an integer, \<open>followUser\<close> does what is expected of it: on the
  follower's own id it raises the error; with a Follow record already stored it returns
  such a record and leaves the store unchanged; and in a store that holds no pair
  twice, every successful call leaves a store with the same property and exactly one
  record for the pair, and a second call returns the record of the first and changes
  nothing. The empty store has the property and \<open>unfollowUser\<close> keeps it.
\<close>

lemma followUser_no_self_no_duplicate_for_integers:
  "followUser s followerId (Num followerId) now = Inl CannotFollowYourself \<and>
   (followerId \<noteq> followingId \<and> 0 < followCountOf s followerId (Num followingId) \<longrightarrow>
      (\<exists>existing\<in>set (Map_values (follows s)).
         follow_followerId existing = followerId \<and> follow_followingId existing = Num followingId \<and>
         followUser s followerId (Num followingId) now = Inr (existing, s))) \<and>
   (\<forall>f s1. followsUnique s \<and> followUser s followerId (Num followingId) now = Inr (f, s1) \<longrightarrow>
      followsUnique s1 \<and> followCountOf s1 followerId (Num followingId) = 1 \<and>
      (\<forall>a b. followCountOf s1 a b \<le> 1) \<and>
      followUser s1 followerId (Num followingId) later = Inr (f, s1))"
proof (intro conjI allI impI)
  show "followUser s followerId (Num followerId) now = Inl CannotFollowYourself"
    by (simp add: followUser_def strictEq_Num_iff)
next
  let ?P = "\<lambda>f. follow_followerId f = followerId \<and> follow_followingId f = Num followingId"
  assume a: "followerId \<noteq> followingId \<and> 0 < followCountOf s followerId (Num followingId)"
  then have "filter ?P (Map_values (follows s)) \<noteq> []"
    by (simp add: followCountOf_def)
  then have "find ?P (Map_values (follows s)) \<noteq> None"
    by (auto simp: find_None_iff filter_empty_conv)
  then obtain e where e: "find ?P (Map_values (follows s)) = Some e"
    by blast
  from find_Some_mem [OF e] have "e \<in> set (Map_values (follows s))" "?P e"
    by simp_all
  moreover from e a have "followUser s followerId (Num followingId) now = Inr (e, s)"
    by (simp add: followUser_def strictEq_Num_iff)
  ultimately show "\<exists>existing\<in>set (Map_values (follows s)).
         follow_followerId existing = followerId \<and> follow_followingId existing = Num followingId \<and>
         followUser s followerId (Num followingId) now = Inr (existing, s)"
    by blast
next
  fix f s1
  let ?P = "\<lambda>f. follow_followerId f = followerId \<and> follow_followingId f = Num followingId"
  let ?g = "\<lambda>f. (follow_followerId f, follow_followingId f)"
  assume a: "followsUnique s \<and> followUser s followerId (Num followingId) now = Inr (f, s1)"
  then have ne: "followerId \<noteq> followingId"
    by (auto simp: followUser_def strictEq_Num_iff split: if_splits)
  have uniq: "followsUnique s1" and found: "find ?P (Map_values (follows s1)) = Some f"
  proof -
    show "followsUnique s1"
    proof (cases "find ?P (Map_values (follows s))")
      case (Some e)
      with a ne show ?thesis by (auto simp: followUser_def strictEq_Num_iff)
    next
      case None
      then have none: "\<forall>x\<in>set (Map_values (follows s)). \<not> ?P x"
        by (simp add: find_None_iff)
      from None a ne have s1: "follows s1 = Map_set (follows s) (cur_follows (currentId s)) f"
        and f: "?P f"
        by (auto simp: followUser_def Let_def strictEq_Num_iff)
      let ?h = "\<lambda>e. (follow_followerId (snd e), follow_followingId (snd e))"
      have "?h (cur_follows (currentId s), f) \<notin> ?h ` set (follows s)"
        using none f by (auto simp: Map_values_def)
      moreover have "distinct (map ?h (follows s))"
        using a by (simp add: followsUnique_def Map_values_def comp_def)
      ultimately have "distinct (map ?h (AList.update (cur_follows (currentId s)) f (follows s)))"
        by (intro distinct_map_update)
      then show ?thesis
        by (simp add: followsUnique_def s1 Map_set_def Map_values_def comp_def)
    qed
    show "find ?P (Map_values (follows s1)) = Some f"
    proof (cases "find ?P (Map_values (follows s))")
      case (Some e)
      with a ne show ?thesis by (auto simp: followUser_def strictEq_Num_iff)
    next
      case None
      then have none: "\<forall>x\<in>set (Map_values (follows s)). \<not> ?P x"
        by (simp add: find_None_iff)
      from None a ne have s1: "follows s1 = Map_set (follows s) (cur_follows (currentId s)) f"
        and f: "?P f"
        by (auto simp: followUser_def Let_def strictEq_Num_iff)
      show ?thesis
      proof (rule find_unique)
        show "f \<in> set (Map_values (follows s1))" by (simp add: s1 Map_set_values_mem)
        show "?P f" by (rule f)
        show "\<forall>y\<in>set (Map_values (follows s1)). ?P y \<longrightarrow> y = f"
          using none Map_set_values_subset [of "follows s" "cur_follows (currentId s)" f]
          by (auto simp: s1)
      qed
    qed
  qed
  show "followsUnique s1" by (rule uniq)
  show "followUser s1 followerId (Num followingId) later = Inr (f, s1)"
    using found ne by (simp add: followUser_def strictEq_Num_iff)
  show "followCountOf s1 a b \<le> 1" for a b
    using uniq by (rule followsUnique_count)
  from find_Some_mem [OF found] have "filter ?P (Map_values (follows s1)) \<noteq> []"
    by (auto simp: filter_empty_conv)
  then have "0 < followCountOf s1 followerId (Num followingId)"
    by (simp add: followCountOf_def)
  moreover have "followCountOf s1 followerId (Num followingId) \<le> 1"
    using uniq by (rule followsUnique_count)
  ultimately show "followCountOf s1 followerId (Num followingId) = 1"
    by simp
qed


lemma followedNaN_eq:
  "followedNaNOnce = twoPosts\<lparr>follows := [(1, nanFollow 1 5000)],
                              currentId := (currentId twoPosts)\<lparr>cur_follows := 2\<rparr>\<rparr>"
  "followedNaNTwice = twoPosts\<lparr>follows := [(1, nanFollow 1 5000), (2, nanFollow 2 5001)],
                               currentId := (currentId twoPosts)\<lparr>cur_follows := 3\<rparr>\<rparr>"
  by (simp_all add: followedNaNOnce_def followedNaNTwice_def followUser_def twoPosts_eq
      Map_values_def Map_set_def Let_def nanFollow_def)

text \<open>
  Claim C5. The claim does not hold of the code when the followed id is \<^verbatim>\<open>NaN\<close>, which
  the follow route passes on when the URL holds no number. \<^verbatim>\<open>NaN === NaN\<close> is false, so
  the search for an existing record finds none although one is stored, and each call
  stores a further record: starting from a store in which no pair occurs twice, two
  calls of \<open>followUser\<close> by user 1 with \<^verbatim>\<open>NaN\<close> both succeed and leave two Follow records
  with the same follower id and the same followed id.
\<close>

theorem followUser_NaN_twice_stores_two_records:
  "followsUnique twoPosts \<and>
   followUser twoPosts 1 NaN 5000 = Inr (nanFollow 1 5000, followedNaNOnce) \<and>
   followUser followedNaNOnce 1 NaN 5001 = Inr (nanFollow 2 5001, followedNaNTwice) \<and>
   Map_values (follows followedNaNTwice) = [nanFollow 1 5000, nanFollow 2 5001] \<and>
   follow_followerId (nanFollow 2 5001) = follow_followerId (nanFollow 1 5000) \<and>
   follow_followingId (nanFollow 2 5001) = follow_followingId (nanFollow 1 5000) \<and>
   followCountOf followedNaNTwice 1 NaN = 2 \<and>
   \<not> followsUnique followedNaNTwice"
  by (simp add: followedNaN_eq followUser_def twoPosts_eq Map_values_def Map_set_def Let_def
      nanFollow_def followCountOf_def followsUnique_def)

subsection \<open>Liking twice, unliking what was never liked\<close>

text \<open>
  When the post id is an integer, \<open>likePost\<close> and \<open>unlikePost\<close> do what is expected of
  them: with a Like record already stored for the user and the post, \<open>likePost\<close> returns
  such a record and leaves the store unchanged; a second \<open>likePost\<close> returns the record
  the first one returned and changes nothing, so that a pair that had no record has
  exactly one after liking twice; \<open>unlikePost\<close> for a pair without a record returns false
  and leaves the store unchanged.
\<close>

lemma likePost_idempotent_for_integers:
  "(0 < likeCountOf s userId (Num postId) \<longrightarrow>
      (\<exists>existing\<in>set (Map_values (likes s)).
         like_userId existing = userId \<and> like_postId existing = Num postId \<and>
         likePost s userId (Num postId) now = (existing, s))) \<and>
   (\<forall>l1 s1. likePost s userId (Num postId) now = (l1, s1) \<longrightarrow>
       likePost s1 userId (Num postId) later = (l1, s1) \<and>
       like_userId l1 = userId \<and> like_postId l1 = Num postId \<and>
       (likeCountOf s userId (Num postId) = 0 \<longrightarrow> likeCountOf s1 userId (Num postId) = 1)) \<and>
   (likeCountOf s userId (Num postId) = 0 \<longrightarrow> unlikePost s userId (Num postId) = (False, s))"
proof (intro conjI allI impI)
  let ?P = "\<lambda>l. like_userId l = userId \<and> like_postId l = Num postId"
  assume "0 < likeCountOf s userId (Num postId)"
  then have "filter ?P (Map_values (likes s)) \<noteq> []"
    by (simp add: likeCountOf_def)
  then have "find ?P (Map_values (likes s)) \<noteq> None"
    by (auto simp: find_None_iff filter_empty_conv)
  then obtain e where e: "find ?P (Map_values (likes s)) = Some e"
    by blast
  from find_Some_mem [OF e] have "e \<in> set (Map_values (likes s))" "?P e"
    by simp_all
  moreover from e have "likePost s userId (Num postId) now = (e, s)"
    by (simp add: likePost_def strictEq_Num_iff)
  ultimately show "\<exists>existing\<in>set (Map_values (likes s)).
         like_userId existing = userId \<and> like_postId existing = Num postId \<and>
         likePost s userId (Num postId) now = (existing, s)"
    by blast
next
  fix l1 s1 assume lp: "likePost s userId (Num postId) now = (l1, s1)"
  let ?P = "\<lambda>l. like_userId l = userId \<and> like_postId l = Num postId"
  have found: "find ?P (Map_values (likes s1)) = Some l1"
  proof (cases "find ?P (Map_values (likes s))")
    case (Some e)
    with lp show ?thesis by (auto simp: likePost_def strictEq_Num_iff)
  next
    case None
    then have none: "\<forall>x\<in>set (Map_values (likes s)). \<not> ?P x"
      by (simp add: find_None_iff)
    from None lp have s1: "likes s1 = Map_set (likes s) (cur_likes (currentId s)) l1"
      and l1: "?P l1"
      by (auto simp: likePost_def Let_def strictEq_Num_iff)
    show ?thesis
    proof (rule find_unique)
      show "l1 \<in> set (Map_values (likes s1))" by (simp add: s1 Map_set_values_mem)
      show "?P l1" by (rule l1)
      show "\<forall>y\<in>set (Map_values (likes s1)). ?P y \<longrightarrow> y = l1"
        using none Map_set_values_subset [of "likes s" "cur_likes (currentId s)" l1]
        by (auto simp: s1)
    qed
  qed
  then show "likePost s1 userId (Num postId) later = (l1, s1)"
    by (simp add: likePost_def strictEq_Num_iff)
  from find_Some_mem [OF found] show "like_userId l1 = userId" "like_postId l1 = Num postId"
    by simp_all
  assume z: "likeCountOf s userId (Num postId) = 0"
  then have none: "\<forall>x\<in>set (map snd (likes s)). \<not> ?P x"
    by (auto simp: likeCountOf_def Map_values_def filter_empty_conv)
  then have "find ?P (Map_values (likes s)) = None"
    by (simp add: find_None_iff Map_values_def)
  with lp have s1: "likes s1 = Map_set (likes s) (cur_likes (currentId s)) l1"
      and l1: "?P l1"
    by (auto simp: likePost_def Let_def strictEq_Num_iff)
  show "likeCountOf s1 userId (Num postId) = 1"
    unfolding likeCountOf_def Map_values_def s1 Map_set_def
    using l1 none by (rule count_update_new)
next
  assume z: "likeCountOf s userId (Num postId) = 0"
  then have "find (\<lambda>l. like_userId l = userId \<and> like_postId l = Num postId) (map snd (likes s)) = None"
    by (auto simp: likeCountOf_def Map_values_def filter_empty_conv find_None_iff)
  then have "find (\<lambda>(_, l). like_userId l = userId \<and> like_postId l = Num postId) (likes s) = None"
    by (simp add: find_entries_None)
  then show "unlikePost s userId (Num postId) = (False, s)"
    by (simp add: unlikePost_def Map_entries_def strictEq_Num_iff)
qed


lemma likedNaN_eq:
  "likedNaNOnce = twoPosts\<lparr>likes := [(1, nanLike 1 5000)],
                           currentId := (currentId twoPosts)\<lparr>cur_likes := 2\<rparr>\<rparr>"
  "likedNaNTwice = twoPosts\<lparr>likes := [(1, nanLike 1 5000), (2, nanLike 2 5001)],
                            currentId := (currentId twoPosts)\<lparr>cur_likes := 3\<rparr>\<rparr>"
  by (simp_all add: likedNaNOnce_def likedNaNTwice_def likePost_def twoPosts_eq Map_values_def
      Map_set_def Let_def nanLike_def)

text \<open>
  Claim C6. The claim does not hold of the code when the post id is \<^verbatim>\<open>NaN\<close>, which the
  like route passes on when the URL holds no number. \<^verbatim>\<open>NaN === NaN\<close> is false, so the
  search for an existing record finds none although one is stored, and each call
  stores a further record: two calls of \<open>likePost\<close> by user 1 with \<^verbatim>\<open>NaN\<close> return two
  different records and leave two Like records with the same user id and the same
  post id, where there was none before.
\<close>

theorem likePost_NaN_twice_stores_two_records:
  "likePost twoPosts 1 NaN 5000 = (nanLike 1 5000, likedNaNOnce) \<and>
   likePost likedNaNOnce 1 NaN 5001 = (nanLike 2 5001, likedNaNTwice) \<and>
   Map_values (likes likedNaNTwice) = [nanLike 1 5000, nanLike 2 5001] \<and>
   like_userId (nanLike 2 5001) = like_userId (nanLike 1 5000) \<and>
   like_postId (nanLike 2 5001) = like_postId (nanLike 1 5000) \<and>
   likeCountOf twoPosts 1 NaN = 0 \<and>
   likeCountOf likedNaNTwice 1 NaN = 2"
  by (simp add: likedNaN_eq likePost_def twoPosts_eq Map_values_def Map_set_def Let_def
      nanLike_def likeCountOf_def)

subsection \<open>Deleting a post\<close>

lemma delete_as_filter: "AList.delete i m = filter (\<lambda>(k, q). k \<noteq> i) m"
  by (induction m) auto

lemma values_filter_keys:
  assumes "list_all (\<lambda>(k, p). f p = k) m"
  shows "map snd (filter (\<lambda>(k, q). k \<noteq> i) m) = filter (\<lambda>p. f p \<noteq> i) (map snd m)"
  using assms by (induction m) auto

lemma deletePost_author:
  assumes "Map_get (posts s) i = Some p" and "post_authorId p = actingUserId"
  shows "deletePost s i actingUserId = (True, s\<lparr>posts := filter (\<lambda>(k, q). k \<noteq> i) (posts s)\<rparr>)"
  using assms by (simp add: deletePost_def Map_delete_def Map_get_def delete_as_filter)

lemma feed_after_delete:
  assumes "posts_wf s"
  shows "sortNewestFirst post_createdAt
           (filter post_published (Map_values (filter (\<lambda>(k, q). k \<noteq> i) (posts s)))) =
         filter (\<lambda>p. post_id p \<noteq> i)
           (sortNewestFirst post_createdAt (filter post_published (Map_values (posts s))))"
proof -
  have "Map_values (filter (\<lambda>(k, q). k \<noteq> i) (posts s)) =
        filter (\<lambda>p. post_id p \<noteq> i) (Map_values (posts s))"
    unfolding Map_values_def using assms [unfolded posts_wf_def] by (rule values_filter_keys)
  then have "filter post_published (Map_values (filter (\<lambda>(k, q). k \<noteq> i) (posts s))) =
        filter (\<lambda>p. post_id p \<noteq> i) (filter post_published (Map_values (posts s)))"
    by (simp add: conj_commute)
  then show ?thesis
    by (simp add: sortNewestFirst_def filter_sort)
qed

text \<open>
  Claim C7. \<open>deletePost\<close> returns false and leaves the store as it is when the id does not
  resolve or the acting user is not the post's author. When the acting user is the
  author it returns true and the store afterwards is the store before without the
  entry of that id: the other posts keep their entries and their order, and the users,
  likes, comments, bookmarks, follows, messages and counters are untouched. The id no
  longer resolves and \<open>getPost\<close> returns the absent value. In a store whose posts are
  filed under their own ids no result of \<open>getPosts\<close> carries that id, whatever the limit,
  the offset and the viewer, and the published posts, newest first, are those of
  before without that post.
\<close>

theorem deletePost_author_only:
  "((Map_get (posts s) i = None \<or>
      (\<exists>p. Map_get (posts s) i = Some p \<and> post_authorId p \<noteq> actingUserId)) \<longrightarrow>
      deletePost s i actingUserId = (False, s)) \<and>
   ((\<exists>p. Map_get (posts s) i = Some p \<and> post_authorId p = actingUserId) \<longrightarrow>
      (\<exists>s'. deletePost s i actingUserId = (True, s') \<and>
         s' = s\<lparr>posts := filter (\<lambda>(k, q). k \<noteq> i) (posts s)\<rparr> \<and>
         users s' = users s \<and> likes s' = likes s \<and> comments s' = comments s \<and>
         bookmarks s' = bookmarks s \<and> follows s' = follows s \<and>
         messages s' = messages s \<and> currentId s' = currentId s \<and>
         Map_get (posts s') i = None \<and>
         (\<forall>j. j \<noteq> i \<longrightarrow> Map_get (posts s') j = Map_get (posts s) j) \<and>
         getPost s' i viewer = None \<and>
         (posts_wf s \<longrightarrow>
            (\<forall>r\<in>set (getPosts s' limit offset viewer). post_id (pwa_post r) \<noteq> i) \<and>
            sortNewestFirst post_createdAt (filter post_published (Map_values (posts s'))) =
              filter (\<lambda>p. post_id p \<noteq> i)
                (sortNewestFirst post_createdAt
                   (filter post_published (Map_values (posts s)))))))"
proof (intro conjI impI)
  assume "Map_get (posts s) i = None \<or>
      (\<exists>p. Map_get (posts s) i = Some p \<and> post_authorId p \<noteq> actingUserId)"
  then show "deletePost s i actingUserId = (False, s)"
    by (auto simp: deletePost_def)
next
  assume "\<exists>p. Map_get (posts s) i = Some p \<and> post_authorId p = actingUserId"
  then obtain p where p: "Map_get (posts s) i = Some p" "post_authorId p = actingUserId"
    by blast
  define s' where "s' = s\<lparr>posts := filter (\<lambda>(k, q). k \<noteq> i) (posts s)\<rparr>"
  have 1: "deletePost s i actingUserId = (True, s')"
    unfolding s'_def using p by (rule deletePost_author)
  have ps: "posts s' = AList.delete i (posts s)"
    by (simp add: s'_def delete_as_filter)
  have fr: "users s' = users s" "likes s' = likes s" "comments s' = comments s"
    "bookmarks s' = bookmarks s" "follows s' = follows s" "messages s' = messages s"
    "currentId s' = currentId s"
    by (simp_all add: s'_def)
  have 2: "Map_get (posts s') i = None"
    by (simp add: ps Map_get_def delete_conv')
  have 5: "\<forall>j. j \<noteq> i \<longrightarrow> Map_get (posts s') j = Map_get (posts s) j"
    by (simp add: ps Map_get_def)
  have 3: "getPost s' i viewer = None"
    using 2 by (simp add: getPost_def)
  have 4: "(\<forall>r\<in>set (getPosts s' limit offset viewer). post_id (pwa_post r) \<noteq> i) \<and>
            sortNewestFirst post_createdAt (filter post_published (Map_values (posts s'))) =
              filter (\<lambda>p. post_id p \<noteq> i)
                (sortNewestFirst post_createdAt
                   (filter post_published (Map_values (posts s))))"
    if wf: "posts_wf s"
  proof
    show feed: "sortNewestFirst post_createdAt (filter post_published (Map_values (posts s'))) =
              filter (\<lambda>p. post_id p \<noteq> i)
                (sortNewestFirst post_createdAt
                   (filter post_published (Map_values (posts s))))"
      unfolding s'_def using feed_after_delete [OF wf, of i] by simp
    show "\<forall>r\<in>set (getPosts s' limit offset viewer). post_id (pwa_post r) \<noteq> i"
    proof
      fix r assume "r \<in> set (getPosts s' limit offset viewer)"
      then have "pwa_post r \<in> set (map pwa_post (getPosts s' limit offset viewer))"
        by simp
      then have "pwa_post r \<in> set (sortNewestFirst post_createdAt
                              (filter post_published (Map_values (posts s'))))"
        unfolding getPosts_posts by (rule set_slice_subset [THEN subsetD])
      then show "post_id (pwa_post r) \<noteq> i"
        unfolding feed by simp
    qed
  qed
  show "\<exists>s'. deletePost s i actingUserId = (True, s') \<and>
         s' = s\<lparr>posts := filter (\<lambda>(k, q). k \<noteq> i) (posts s)\<rparr> \<and>
         users s' = users s \<and> likes s' = likes s \<and> comments s' = comments s \<and>
         bookmarks s' = bookmarks s \<and> follows s' = follows s \<and>
         messages s' = messages s \<and> currentId s' = currentId s \<and>
         Map_get (posts s') i = None \<and>
         (\<forall>j. j \<noteq> i \<longrightarrow> Map_get (posts s') j = Map_get (posts s) j) \<and>
         getPost s' i viewer = None \<and>
         (posts_wf s \<longrightarrow>
            (\<forall>r\<in>set (getPosts s' limit offset viewer). post_id (pwa_post r) \<noteq> i) \<and>
            sortNewestFirst post_createdAt (filter post_published (Map_values (posts s'))) =
              filter (\<lambda>p. post_id p \<noteq> i)
                (sortNewestFirst post_createdAt
                   (filter post_published (Map_values (posts s)))))"
    apply (rule exI [of _ s'])
    apply (intro conjI impI)
                 apply (rule 1)
                apply (rule s'_def)
               apply (rule fr)+
        apply (rule 2)
       apply (rule 5)
      apply (rule 3)
     apply (erule 4 [THEN conjunct1])
    apply (erule 4 [THEN conjunct2])
    done
qed

theorem deletePost_author_only_witness:
  "posts_wf fourPosts \<and> Map_get (posts fourPosts) 1 = Some postHello \<and>
   post_authorId postHello = 1 \<and>
   map pwa_post (getPosts fourPosts None None (Some 1)) = [postNews, postOther, postHello] \<and>
   deletePost fourPosts 1 2 = (False, fourPosts) \<and>
   deletePost fourPosts 7 1 = (False, fourPosts) \<and>
   deletePost fourPosts 1 1 =
     (True, fourPosts\<lparr>posts := [(2, postDraft), (3, postNews), (4, postOther)]\<rparr>) \<and>
   getPost (snd (deletePost fourPosts 1 1)) 1 (Some 1) = None \<and>
   map pwa_post (getPosts (snd (deletePost fourPosts 1 1)) None None (Some 1)) =
     [postNews, postOther] \<and>
   1 \<notin> post_id ` pwa_post ` set (getPosts (snd (deletePost fourPosts 1 1)) None None (Some 1))"
proof -
  have g: "posts_wf fourPosts" "Map_get (posts fourPosts) 1 = Some postHello"
    "post_authorId postHello = 1" "Map_get (posts fourPosts) 7 = None"
    by (simp_all add: fourPosts_eq Map_get_def posts_wf_def postHello_def postDraft_def
        postNews_def postOther_def)
  have feed: "sortNewestFirst post_createdAt
       (filter post_published (Map_values (posts fourPosts))) = [postNews, postOther, postHello]"
    by (simp add: fourPosts_eq Map_values_def sortNewestFirst_def postHello_def postDraft_def
        postNews_def postOther_def)
  have before: "map pwa_post (getPosts fourPosts None None (Some 1)) =
      [postNews, postOther, postHello]"
    unfolding getPosts_posts feed by (simp add: slice_def orDefault_def)
  have a: "deletePost fourPosts 1 2 = (False, fourPosts)"
    using deletePost_author_only [of fourPosts 1 2] g by simp
  have b: "deletePost fourPosts 7 1 = (False, fourPosts)"
    using deletePost_author_only [of fourPosts 7 1] g by simp
  have "\<exists>p. Map_get (posts fourPosts) 1 = Some p \<and> post_authorId p = 1"
    using g(2,3) by blast
  from deletePost_author_only [of fourPosts 1 1 "Some 1" None None, THEN conjunct2,
      rule_format, OF this]
  obtain s' where d: "deletePost fourPosts 1 1 = (True, s')"
    and e: "s' = fourPosts\<lparr>posts := filter (\<lambda>(k, q). k \<noteq> 1) (posts fourPosts)\<rparr>"
    and n: "getPost s' 1 (Some 1) = None"
    and w: "posts_wf fourPosts \<longrightarrow>
            (\<forall>r\<in>set (getPosts s' None None (Some 1)). post_id (pwa_post r) \<noteq> 1) \<and>
            sortNewestFirst post_createdAt (filter post_published (Map_values (posts s'))) =
              filter (\<lambda>p. post_id p \<noteq> 1)
                (sortNewestFirst post_createdAt
                   (filter post_published (Map_values (posts fourPosts))))"
    by blast
  have c: "deletePost fourPosts 1 1 =
     (True, fourPosts\<lparr>posts := [(2, postDraft), (3, postNews), (4, postOther)]\<rparr>)"
    unfolding d e by (simp add: fourPosts_eq)
  from w g(1) have notin: "\<forall>r\<in>set (getPosts s' None None (Some 1)). post_id (pwa_post r) \<noteq> 1"
    and after: "sortNewestFirst post_createdAt (filter post_published (Map_values (posts s'))) =
              filter (\<lambda>p. post_id p \<noteq> 1) [postNews, postOther, postHello]"
    unfolding feed by blast+
  have f: "map pwa_post (getPosts (snd (deletePost fourPosts 1 1)) None None (Some 1)) =
     [postNews, postOther]"
    unfolding d snd_conv getPosts_posts after
    by (simp add: slice_def orDefault_def postHello_def postNews_def postOther_def)
  have h: "1 \<notin> post_id ` pwa_post ` set (getPosts (snd (deletePost fourPosts 1 1)) None None (Some 1))"
    unfolding d snd_conv using notin by auto
  have i: "getPost (snd (deletePost fourPosts 1 1)) 1 (Some 1) = None"
    unfolding d snd_conv by (rule n)
  show ?thesis using g(1,2,3) before a b c i f h by blast
qed

subsection \<open>Looking a user up by email and by username\<close>

lemma createUser_dave:
  "createUser inbox dave ''hash-d'' 9000 =
     (userDave, inbox\<lparr>users := [(1, userAlice), (2, userBob), (3, userCarol), (4, userDave)],
                     currentId := (currentId inbox)\<lparr>cur_users := 5\<rparr>\<rparr>)"
  by (simp add: createUser_def inbox_eq dave_def userDave_def Map_set_def orNull_def Let_def)

text \<open>
  Claim C8. When \<open>createUser\<close> has returned the user \<open>U\<close> and no other user of the store
  shares \<open>U\<close>'s email or username, \<open>getUserByEmail\<close> on \<open>U\<close>'s email and
  \<open>getUserByUsername\<close> on \<open>U\<close>'s username both return \<open>U\<close>; the email and the username
  of \<open>U\<close> are those of the data that were passed in.
\<close>

theorem createUser_then_lookup:
  assumes "createUser s userData hashedPassword now = (U, s')"
    and "\<forall>u\<in>set (Map_values (users s')). u \<noteq> U \<longrightarrow>
           user_email u \<noteq> user_email U \<and> user_username u \<noteq> user_username U"
  shows "getUserByEmail s' (user_email U) = Some U \<and>
         getUserByUsername s' (user_username U) = Some U \<and>
         user_email U = iu_email userData \<and> user_username U = iu_username userData"
proof -
  have U: "user_email U = iu_email userData" "user_username U = iu_username userData"
    using assms(1) by (auto simp: createUser_def Let_def)
  have mem: "U \<in> set (Map_values (users s'))"
    using assms(1) by (auto simp: createUser_def Let_def Map_set_values_mem)
  have "find (\<lambda>u. user_email u = user_email U) (Map_values (users s')) = Some U"
    using mem assms(2) by (intro find_unique) auto
  moreover have "find (\<lambda>u. user_username u = user_username U) (Map_values (users s')) = Some U"
    using mem assms(2) by (intro find_unique) auto
  ultimately show ?thesis using U by (simp add: getUserByEmail_def getUserByUsername_def)
qed

theorem createUser_then_lookup_witness:
  "getUserByEmail (snd (createUser inbox dave ''hash-d'' 9000)) ''dave@example.com''
     = Some userDave \<and>
   getUserByUsername (snd (createUser inbox dave ''hash-d'' 9000)) ''dave'' = Some userDave"
proof -
  let ?s = "inbox\<lparr>users := [(1, userAlice), (2, userBob), (3, userCarol), (4, userDave)],
                     currentId := (currentId inbox)\<lparr>cur_users := 5\<rparr>\<rparr>"
  have "\<forall>u\<in>set (Map_values (users ?s)). u \<noteq> userDave \<longrightarrow>
           user_email u \<noteq> user_email userDave \<and> user_username u \<noteq> user_username userDave"
    by (simp add: Map_values_def userAlice_def userBob_def userCarol_def userDave_def)
  from createUser_then_lookup [OF createUser_dave this]
  have "getUserByEmail ?s (user_email userDave) = Some userDave \<and>
        getUserByUsername ?s (user_username userDave) = Some userDave"
    by blast
  moreover have "user_email userDave = ''dave@example.com''" "user_username userDave = ''dave''"
    by (simp_all add: userDave_def)
  ultimately show ?thesis by (simp add: createUser_dave)
qed

subsection \<open>Unpublished posts are invisible to getPost\<close>

text \<open>
  Claim C9. \<open>getPost\<close> returns a value exactly when the id resolves to a stored post that
  is published. For a stored post that is not published it returns the absent value, as
  it does for an id that does not resolve, whoever the viewer is, the post's author
  included.
\<close>

theorem getPost_Some_iff_published:
  "((\<exists>r. getPost s i viewer = Some r) \<longleftrightarrow>
      (\<exists>p. Map_get (posts s) i = Some p \<and> post_published p)) \<and>
   (\<forall>p. Map_get (posts s) i = Some p \<and> \<not> post_published p \<longrightarrow>
      getPost s i viewer = None \<and> getPost s i (Some (post_authorId p)) = None) \<and>
   (Map_get (posts s) i = None \<longrightarrow> getPost s i viewer = None)"
  by (auto simp: getPost_def split: option.splits)

theorem getPost_Some_iff_published_witness:
  "Map_get (posts twoPosts) 2 = Some postDraft \<and> \<not> post_published postDraft \<and>
   post_authorId postDraft = 2 \<and>
   getPost twoPosts 2 (Some 2) = None \<and> getPost twoPosts 7 (Some 2) = None \<and>
   (\<exists>r. getPost twoPosts 1 (Some 2) = Some r)"
  using getPost_Some_iff_published [of twoPosts 2 "Some 2"]
    getPost_Some_iff_published [of twoPosts 7 "Some 2"]
    getPost_Some_iff_published [of twoPosts 1 "Some 2"]
  by (simp add: twoPosts_eq Map_get_def postDraft_def postHello_def)

subsection \<open>Updating a post\<close>

lemma updatePost_Some:
  assumes "Map_get (posts s) i = Some p"
  shows "\<exists>p'. updatePost s i postData now = (Some p', s\<lparr>posts := Map_set (posts s) i p'\<rparr>) \<and>
         post_id p' = post_id p \<and>
         post_createdAt p' = post_createdAt p \<and>
         post_updatedAt p' = now \<and>
         post_title p' = (case pp_title postData of None \<Rightarrow> post_title p | Some v \<Rightarrow> v) \<and>
         post_content p' = (case pp_content postData of None \<Rightarrow> post_content p | Some v \<Rightarrow> v) \<and>
         post_excerpt p' = (case pp_excerpt postData of None \<Rightarrow> post_excerpt p | Some v \<Rightarrow> v) \<and>
         post_authorId p' =
           (case pp_authorId postData of None \<Rightarrow> post_authorId p | Some v \<Rightarrow> v) \<and>
         post_image p' = (case pp_image postData of None \<Rightarrow> post_image p | Some v \<Rightarrow> v) \<and>
         post_tags p' = (case pp_tags postData of None \<Rightarrow> post_tags p | Some v \<Rightarrow> v) \<and>
         post_published p' =
           (case pp_published postData of None \<Rightarrow> post_published p | Some v \<Rightarrow> v)"
  using assms by (simp add: updatePost_def Let_def orDefault_def)

lemma updatePost_frame:
  assumes "Map_get (posts s) i = Some p"
  shows "\<exists>s'. snd (updatePost s i postData now) = s' \<and>
           Map_get (posts s') i = fst (updatePost s i postData now) \<and>
           (\<forall>j. j \<noteq> i \<longrightarrow> Map_get (posts s') j = Map_get (posts s) j) \<and>
           map fst (posts s') = map fst (posts s) \<and>
           users s' = users s \<and> likes s' = likes s \<and> comments s' = comments s \<and>
           bookmarks s' = bookmarks s \<and> follows s' = follows s \<and>
           messages s' = messages s \<and> currentId s' = currentId s"
  using assms Map_set_keys_present [OF assms]
  by (simp add: updatePost_def Let_def Map_get_set)

text \<open>
  Claim C10. \<open>updatePost\<close> takes no acting user and checks no ownership. When the id does
  not resolve it returns the absent value and the store is unchanged. For every stored
  post it returns the updated post and stores it under the same id, at the same place:
  the fields supplied in the data are overwritten, \<^verbatim>\<open>updatedAt\<close> becomes the current time,
  every field left out keeps its value, and so do \<^verbatim>\<open>id\<close> and \<^verbatim>\<open>createdAt\<close>; the other posts
  and the other maps of the store are untouched.
\<close>

theorem updatePost_overwrites_supplied_fields:
  "(Map_get (posts s) i = None \<longrightarrow> updatePost s i postData now = (None, s)) \<and>
   (\<forall>p. Map_get (posts s) i = Some p \<longrightarrow>
      (\<exists>p' s'. updatePost s i postData now = (Some p', s') \<and>
         Map_get (posts s') i = Some p' \<and>
         (\<forall>j. j \<noteq> i \<longrightarrow> Map_get (posts s') j = Map_get (posts s) j) \<and>
         map fst (posts s') = map fst (posts s) \<and>
         users s' = users s \<and> likes s' = likes s \<and> comments s' = comments s \<and>
         bookmarks s' = bookmarks s \<and> follows s' = follows s \<and>
         messages s' = messages s \<and> currentId s' = currentId s \<and>
         post_id p' = post_id p \<and>
         post_createdAt p' = post_createdAt p \<and>
         post_updatedAt p' = now \<and>
         post_title p' = (case pp_title postData of None \<Rightarrow> post_title p | Some v \<Rightarrow> v) \<and>
         post_content p' = (case pp_content postData of None \<Rightarrow> post_content p | Some v \<Rightarrow> v) \<and>
         post_excerpt p' = (case pp_excerpt postData of None \<Rightarrow> post_excerpt p | Some v \<Rightarrow> v) \<and>
         post_authorId p' =
           (case pp_authorId postData of None \<Rightarrow> post_authorId p | Some v \<Rightarrow> v) \<and>
         post_image p' = (case pp_image postData of None \<Rightarrow> post_image p | Some v \<Rightarrow> v) \<and>
         post_tags p' = (case pp_tags postData of None \<Rightarrow> post_tags p | Some v \<Rightarrow> v) \<and>
         post_published p' =
           (case pp_published postData of None \<Rightarrow> post_published p | Some v \<Rightarrow> v)))"
proof (intro conjI allI impI)
  assume "Map_get (posts s) i = None"
  then show "updatePost s i postData now = (None, s)" by (simp add: updatePost_def)
next
  fix p assume p: "Map_get (posts s) i = Some p"
  from updatePost_Some [OF p, of postData now] obtain p' where
    1: "updatePost s i postData now = (Some p', s\<lparr>posts := Map_set (posts s) i p'\<rparr>)" and
    2: "post_id p' = post_id p \<and>
         post_createdAt p' = post_createdAt p \<and>
         post_updatedAt p' = now \<and>
         post_title p' = (case pp_title postData of None \<Rightarrow> post_title p | Some v \<Rightarrow> v) \<and>
         post_content p' = (case pp_content postData of None \<Rightarrow> post_content p | Some v \<Rightarrow> v) \<and>
         post_excerpt p' = (case pp_excerpt postData of None \<Rightarrow> post_excerpt p | Some v \<Rightarrow> v) \<and>
         post_authorId p' =
           (case pp_authorId postData of None \<Rightarrow> post_authorId p | Some v \<Rightarrow> v) \<and>
         post_image p' = (case pp_image postData of None \<Rightarrow> post_image p | Some v \<Rightarrow> v) \<and>
         post_tags p' = (case pp_tags postData of None \<Rightarrow> post_tags p | Some v \<Rightarrow> v) \<and>
         post_published p' =
           (case pp_published postData of None \<Rightarrow> post_published p | Some v \<Rightarrow> v)"
    by blast
  define s' where "s' = s\<lparr>posts := Map_set (posts s) i p'\<rparr>"
  from updatePost_frame [OF p, of postData now] have
    3: "Map_get (posts s') i = Some p' \<and>
         (\<forall>j. j \<noteq> i \<longrightarrow> Map_get (posts s') j = Map_get (posts s) j) \<and>
         map fst (posts s') = map fst (posts s) \<and>
         users s' = users s \<and> likes s' = likes s \<and> comments s' = comments s \<and>
         bookmarks s' = bookmarks s \<and> follows s' = follows s \<and>
         messages s' = messages s \<and> currentId s' = currentId s"
    unfolding 1 s'_def by simp
  have 4: "updatePost s i postData now = (Some p', s')"
    using 1 by (simp add: s'_def)
  show "\<exists>p' s'. updatePost s i postData now = (Some p', s') \<and>
         Map_get (posts s') i = Some p' \<and>
         (\<forall>j. j \<noteq> i \<longrightarrow> Map_get (posts s') j = Map_get (posts s) j) \<and>
         map fst (posts s') = map fst (posts s) \<and>
         users s' = users s \<and> likes s' = likes s \<and> comments s' = comments s \<and>
         bookmarks s' = bookmarks s \<and> follows s' = follows s \<and>
         messages s' = messages s \<and> currentId s' = currentId s \<and>
         post_id p' = post_id p \<and>
         post_createdAt p' = post_createdAt p \<and>
         post_updatedAt p' = now \<and>
         post_title p' = (case pp_title postData of None \<Rightarrow> post_title p | Some v \<Rightarrow> v) \<and>
         post_content p' = (case pp_content postData of None \<Rightarrow> post_content p | Some v \<Rightarrow> v) \<and>
         post_excerpt p' = (case pp_excerpt postData of None \<Rightarrow> post_excerpt p | Some v \<Rightarrow> v) \<and>
         post_authorId p' =
           (case pp_authorId postData of None \<Rightarrow> post_authorId p | Some v \<Rightarrow> v) \<and>
         post_image p' = (case pp_image postData of None \<Rightarrow> post_image p | Some v \<Rightarrow> v) \<and>
         post_tags p' = (case pp_tags postData of None \<Rightarrow> post_tags p | Some v \<Rightarrow> v) \<and>
         post_published p' =
           (case pp_published postData of None \<Rightarrow> post_published p | Some v \<Rightarrow> v)"
    apply (rule exI [of _ p'])
    apply (rule exI [of _ s'])
    using 4 2 3 apply -
    apply (elim conjE)
    apply (intro conjI)
                        apply assumption+
    done
qed

theorem updatePost_overwrites_supplied_fields_witness:
  "Map_get (posts twoPosts) 1 = Some postHello \<and>
   (\<exists>p' s'. updatePost twoPosts 1 retitle 9999 = (Some p', s') \<and>
      post_title p' = ''Hi'' \<and> post_content p' = ''World'' \<and> post_tags p' = None \<and>
      post_id p' = 1 \<and> post_authorId p' = 1 \<and> post_createdAt p' = 3000 \<and>
      post_updatedAt p' = 9999 \<and>
      Map_get (posts s') 2 = Some postDraft \<and> map fst (posts s') = [1, 2]) \<and>
   updatePost twoPosts 7 retitle 9999 = (None, twoPosts)"
proof -
  have g: "Map_get (posts twoPosts) 1 = Some postHello" "Map_get (posts twoPosts) 7 = None"
    "Map_get (posts twoPosts) 2 = Some postDraft" "map fst (posts twoPosts) = [1, 2]"
    by (simp_all add: twoPosts_eq Map_get_def)
  from updatePost_overwrites_supplied_fields
         [of twoPosts 1 retitle 9999, THEN conjunct2, rule_format, OF g(1)]
  have "\<exists>p' s'. updatePost twoPosts 1 retitle 9999 = (Some p', s') \<and>
    post_title p' = (case pp_title retitle of None \<Rightarrow> post_title postHello | Some v \<Rightarrow> v) \<and>
    post_content p' = (case pp_content retitle of None \<Rightarrow> post_content postHello | Some v \<Rightarrow> v) \<and>
    post_tags p' = (case pp_tags retitle of None \<Rightarrow> post_tags postHello | Some v \<Rightarrow> v) \<and>
    post_id p' = post_id postHello \<and>
    post_authorId p' =
       (case pp_authorId retitle of None \<Rightarrow> post_authorId postHello | Some v \<Rightarrow> v) \<and>
    post_createdAt p' = post_createdAt postHello \<and>
    post_updatedAt p' = 9999 \<and>
    Map_get (posts s') 2 = Map_get (posts twoPosts) 2 \<and>
    map fst (posts s') = map fst (posts twoPosts)"
    apply (elim exE conjE)
    subgoal for p' s'
      apply (rule exI [of _ p'])
      apply (rule exI [of _ s'])
      apply simp
      done
    done
  then have "\<exists>p' s'. updatePost twoPosts 1 retitle 9999 = (Some p', s') \<and>
      post_title p' = ''Hi'' \<and> post_content p' = ''World'' \<and> post_tags p' = None \<and>
      post_id p' = 1 \<and> post_authorId p' = 1 \<and> post_createdAt p' = 3000 \<and>
      post_updatedAt p' = 9999 \<and>
      Map_get (posts s') 2 = Some postDraft \<and> map fst (posts s') = [1, 2]"
    using g(3,4) by (simp add: retitle_def postHello_def)
  moreover have "updatePost twoPosts 7 retitle 9999 = (None, twoPosts)"
    using updatePost_overwrites_supplied_fields [of twoPosts 7 retitle 9999] g(2) by blast
  ultimately show ?thesis using g(1) by blast
qed

end
